theory Spec2Isabelle
  imports Complex_Main "HOL-Library.Log_Nat"
begin

section \<open>Exceptions and Python values\<close>

text \<open>
  Every exception the modelled code can meet is a value. A call that may raise returns
  \<open>exn + 'a\<close>, with \<open>Inl\<close> for the raised exception; a \<open>try ... except Exception\<close> of
  the source is a case distinction on that sum.
\<close>

datatype exn = ConnectionError | ResponseError | ValueError | ZeroDivisionError
  | QueueFull | QueueEmpty | TimeoutError | SinkError

text \<open>
  Values of the dict returned by \<open>get_realtime_stats\<close>. A Python float is carried as the
  exact rational it approximates; no theorem below depends on its rounding.
\<close>

datatype pyval = PyInt int | PyFloat rat

section \<open>Python floats\<close>

text \<open>
  A Python \<open>float\<close> is an IEEE 754 binary64 number. A finite float is carried as the
  rational number it is, and every operation rounds its exact result to the nearest
  number with a significand of 53 bits, ties to the even significand. The exponent is
  not bounded: overflow and subnormal numbers are out of the range of the costs.

  \<open>ilog2 x\<close> is the exponent of a positive \<open>x\<close>, the \<open>e\<close> with \<open>2^e \<le> x < 2^(e+1)\<close>.
\<close>

definition ilog2 :: "rat \<Rightarrow> int" where
  "ilog2 x =
     (case quotient_of x of
        (p, q) \<Rightarrow>
          (let k = bitlen p - bitlen q
           in if 2 powi k \<le> x then k else k - 1))"

definition round_half_even :: "rat \<Rightarrow> int" where
  "round_half_even x =
     (let f = \<lfloor>x\<rfloor>; r = x - of_int f
      in if r < 1 / 2 then f else if 1 / 2 < r then f + 1 else if even f then f else f + 1)"

definition float64 :: "rat \<Rightarrow> rat" where
  "float64 x =
     (if x = 0 then 0
      else (let a = \<bar>x\<bar>; e = ilog2 a - 52; m = round_half_even (a / 2 powi e)
            in sgn x * of_int m * 2 powi e))"

text \<open>\<open>x + y\<close> and \<open>x * y\<close> on floats, and \<open>a / b\<close> on ints with \<open>b\<close> not zero.\<close>

definition fadd :: "rat \<Rightarrow> rat \<Rightarrow> rat" where
  "fadd x y = float64 (x + y)"

definition fmul :: "rat \<Rightarrow> rat \<Rightarrow> rat" where
  "fmul x y = float64 (x * y)"

definition int_truediv :: "int \<Rightarrow> int \<Rightarrow> rat" where
  "int_truediv a b = float64 (of_int a / of_int b)"

text \<open>
  \<open>round(x, ndigits)\<close> on a float, for \<open>ndigits \<ge> 0\<close>: the exact value of \<open>x\<close> rounded to
  that many decimal places, ties to even, and then the float nearest to that decimal.
\<close>

definition py_round :: "rat \<Rightarrow> nat \<Rightarrow> rat" where
  "py_round x ndigits = float64 (of_int (round_half_even (x * 10 ^ ndigits)) / 10 ^ ndigits)"

section \<open>Settings (config.py)\<close>

text \<open>The fields the modelled code reads. A float literal is the float nearest to it.\<close>

record settings =
  GROQ_LLAMA3_8B_INPUT_COST :: rat
  GROQ_LLAMA3_8B_OUTPUT_COST :: rat
  GROQ_LLAMA3_70B_INPUT_COST :: rat
  GROQ_LLAMA3_70B_OUTPUT_COST :: rat
  GROQ_MIXTRAL_8X7B_INPUT_COST :: rat
  GROQ_MIXTRAL_8X7B_OUTPUT_COST :: rat
  GROQ_GEMMA_7B_INPUT_COST :: rat
  GROQ_GEMMA_7B_OUTPUT_COST :: rat
  GROQ_GEMMA2_9B_INPUT_COST :: rat
  GROQ_GEMMA2_9B_OUTPUT_COST :: rat
  RATE_LIMIT_PER_MINUTE :: int
  RATE_LIMIT_PER_HOUR :: int
  METRICS_QUEUE_SIZE :: int
  METRICS_BATCH_SIZE :: int
  METRICS_FLUSH_INTERVAL :: int

definition default_settings :: settings where
  "default_settings =
     \<lparr>GROQ_LLAMA3_8B_INPUT_COST = float64 (5 / 100),
      GROQ_LLAMA3_8B_OUTPUT_COST = float64 (8 / 100),
      GROQ_LLAMA3_70B_INPUT_COST = float64 (59 / 100),
      GROQ_LLAMA3_70B_OUTPUT_COST = float64 (79 / 100),
      GROQ_MIXTRAL_8X7B_INPUT_COST = float64 (24 / 100),
      GROQ_MIXTRAL_8X7B_OUTPUT_COST = float64 (24 / 100),
      GROQ_GEMMA_7B_INPUT_COST = float64 (7 / 100),
      GROQ_GEMMA_7B_OUTPUT_COST = float64 (7 / 100),
      GROQ_GEMMA2_9B_INPUT_COST = float64 (20 / 100),
      GROQ_GEMMA2_9B_OUTPUT_COST = float64 (20 / 100),
      RATE_LIMIT_PER_MINUTE = 60, RATE_LIMIT_PER_HOUR = 1000,
      METRICS_QUEUE_SIZE = 1000, METRICS_BATCH_SIZE = 10, METRICS_FLUSH_INTERVAL = 5\<rparr>"

subsection \<open>get\_model\_costs and calculate\_cost\<close>

text \<open>
  \<open>str.lower()\<close> on the ASCII letters, and \<open>needle in haystack\<close> on strings.
\<close>

definition lower_char :: "char \<Rightarrow> char" where
  "lower_char c =
     (let n = (of_char c :: nat) in if 65 \<le> n \<and> n \<le> 90 then char_of (n + 32) else c)"

definition lower :: "string \<Rightarrow> string" where
  "lower s = map lower_char s"

fun contains :: "string \<Rightarrow> string \<Rightarrow> bool" where
  "contains needle [] = (needle = [])"
| "contains needle (c # cs) =
     (take (length needle) (c # cs) = needle \<or> contains needle cs)"

definition get_model_costs :: "settings \<Rightarrow> string \<Rightarrow> rat \<times> rat" where
  "get_model_costs cfg model =
     (let model_lower = lower model in
      if contains ''llama-3.1-8b'' model_lower \<or> contains ''llama3-8b'' model_lower
      then (GROQ_LLAMA3_8B_INPUT_COST cfg, GROQ_LLAMA3_8B_OUTPUT_COST cfg)
      else if contains ''llama-3.1-70b'' model_lower \<or> contains ''llama3-70b'' model_lower
      then (GROQ_LLAMA3_70B_INPUT_COST cfg, GROQ_LLAMA3_70B_OUTPUT_COST cfg)
      else if contains ''mixtral'' model_lower
      then (GROQ_MIXTRAL_8X7B_INPUT_COST cfg, GROQ_MIXTRAL_8X7B_OUTPUT_COST cfg)
      else if contains ''gemma-7b'' model_lower
      then (GROQ_GEMMA_7B_INPUT_COST cfg, GROQ_GEMMA_7B_OUTPUT_COST cfg)
      else if contains ''gemma2-9b'' model_lower
      then (GROQ_GEMMA2_9B_INPUT_COST cfg, GROQ_GEMMA2_9B_OUTPUT_COST cfg)
      else (float64 (10 / 100), float64 (10 / 100)))"

definition calculate_cost :: "settings \<Rightarrow> string \<Rightarrow> int \<Rightarrow> int \<Rightarrow> rat" where
  "calculate_cost cfg model input_tokens output_tokens =
     (case get_model_costs cfg model of
        (input_cost_per_m, output_cost_per_m) \<Rightarrow>
          (let input_cost = fmul (int_truediv input_tokens 1000000) input_cost_per_m;
               output_cost = fmul (int_truediv output_tokens 1000000) output_cost_per_m
           in py_round (fadd input_cost output_cost) 8))"

section \<open>The counter store\<close>

text \<open>
  The Redis server behind \<open>redis.asyncio\<close>. A key holds a string and an optional time
  to live. \<open>IntStr n\<close> is the decimal string of \<open>n\<close> (what INCR writes, and what both
  Redis and Python's \<open>int()\<close> read back as \<open>n\<close>); \<open>OtherStr s\<close> is any stored text that
  is not an integer: INCR answers it with an error and \<open>int()\<close> raises ValueError.
  The server's 64-bit range for counters is not modelled: counters are unbounded integers.

  The client can fail: \<open>faults\<close> says for each command, numbered in the order of issue,
  whether it raises instead of reaching the server; \<open>ops\<close> counts the commands issued.
  Expiry is the server's own clock and is not run by any command here; the time to live
  last set is recorded with the key. Every time to live this service sets is positive.
\<close>

datatype redis_value = IntStr int | OtherStr string

record redis_client =
  db :: "string \<Rightarrow> (redis_value \<times> int option) option"
  faults :: "nat \<Rightarrow> bool"
  ops :: nat

definition issue :: "redis_client \<Rightarrow> redis_client" where
  "issue r = r\<lparr>ops := Suc (ops r)\<rparr>"

definition redis_get :: "string \<Rightarrow> redis_client \<Rightarrow> (exn + redis_value option) \<times> redis_client" where
  "redis_get key r =
     (if faults r (ops r) then (Inl ConnectionError, issue r)
      else (Inr (map_option fst (db r key)), issue r))"

definition redis_incr :: "string \<Rightarrow> redis_client \<Rightarrow> (exn + int) \<times> redis_client" where
  "redis_incr key r =
     (if faults r (ops r) then (Inl ConnectionError, issue r)
      else (case db r key of
              None \<Rightarrow> (Inr 1, issue (r\<lparr>db := (db r)(key \<mapsto> (IntStr 1, None))\<rparr>))
            | Some (IntStr n, ttl) \<Rightarrow>
                (Inr (n + 1), issue (r\<lparr>db := (db r)(key \<mapsto> (IntStr (n + 1), ttl))\<rparr>))
            | Some (OtherStr s, ttl) \<Rightarrow> (Inl ResponseError, issue r)))"

definition redis_expire :: "string \<Rightarrow> int \<Rightarrow> redis_client \<Rightarrow> (exn + bool) \<times> redis_client" where
  "redis_expire key ttl r =
     (if faults r (ops r) then (Inl ConnectionError, issue r)
      else (case db r key of
              None \<Rightarrow> (Inr False, issue r)
            | Some (v, _) \<Rightarrow> (Inr True, issue (r\<lparr>db := (db r)(key \<mapsto> (v, Some ttl))\<rparr>))))"

section \<open>RedisService (redis\_service.py)\<close>

text \<open>
  The service object holds \<open>self.redis\<close>, a client or \<open>None\<close>. Each method takes the
  service and returns its result with the service afterwards. The calls to the logger
  have no effect on the results and are left out of this part.
\<close>

type_synonym redis_service = "redis_client option"

text \<open>Python's \<open>int(value)\<close> on a stored string, and the truth value of the string.\<close>

fun py_int :: "redis_value \<Rightarrow> exn + int" where
  "py_int (IntStr n) = Inr n"
| "py_int (OtherStr s) = Inl ValueError"

fun str_truthy :: "redis_value \<Rightarrow> bool" where
  "str_truthy (IntStr n) = True"
| "str_truthy (OtherStr s) = (s \<noteq> [])"

text \<open>\<open>a or b\<close> on an \<open>Optional[int]\<close> and an int.\<close>

fun py_or :: "int option \<Rightarrow> int \<Rightarrow> int" where
  "py_or None d = d"
| "py_or (Some n) d = (if n \<noteq> 0 then n else d)"

definition get_counter :: "redis_service \<Rightarrow> string \<Rightarrow> (exn + int) \<times> redis_service" where
  "get_counter svc key =
     (case svc of
        None \<Rightarrow> (Inr 0, svc)
      | Some r \<Rightarrow>
          (case redis_get key r of
             (Inl e, r') \<Rightarrow> (Inr 0, Some r')
           | (Inr None, r') \<Rightarrow> (Inr 0, Some r')
           | (Inr (Some v), r') \<Rightarrow>
               (if str_truthy v
                then (case py_int v of Inl e \<Rightarrow> (Inr 0, Some r') | Inr n \<Rightarrow> (Inr n, Some r'))
                else (Inr 0, Some r'))))"

text \<open>In \<open>increment_counter\<close>, \<open>if ttl:\<close> is false for \<open>None\<close> and for \<open>0\<close>.\<close>

definition increment_counter ::
  "redis_service \<Rightarrow> string \<Rightarrow> int option \<Rightarrow> (exn + int) \<times> redis_service" where
  "increment_counter svc key ttl =
     (case svc of
        None \<Rightarrow> (Inr 0, svc)
      | Some r \<Rightarrow>
          (case redis_incr key r of
             (Inl e, r') \<Rightarrow> (Inr 0, Some r')
           | (Inr v, r') \<Rightarrow>
               (case ttl of
                  None \<Rightarrow> (Inr v, Some r')
                | Some t \<Rightarrow>
                    (if t \<noteq> 0
                     then (case redis_expire key t r' of
                             (Inl e, r'') \<Rightarrow> (Inr 0, Some r'')
                           | (Inr _, r'') \<Rightarrow> (Inr v, Some r''))
                     else (Inr v, Some r')))))"

subsection \<open>Window keys\<close>

text \<open>
  \<open>datetime.utcnow()\<close> as its calendar fields, and \<open>strftime\<close> with the three formats
  the service uses. Years have four digits.
\<close>

record datetime =
  year :: nat
  month :: nat
  day :: nat
  hour :: nat
  minute :: nat
  second :: nat

definition digit :: "nat \<Rightarrow> char" where
  "digit n = ''0123456789'' ! (n mod 10)"

definition pad2 :: "nat \<Rightarrow> string" where
  "pad2 n = [digit (n div 10), digit n]"

definition pad4 :: "nat \<Rightarrow> string" where
  "pad4 n = [digit (n div 1000), digit (n div 100), digit (n div 10), digit n]"

definition strftime_Ymd :: "datetime \<Rightarrow> string" where
  "strftime_Ymd t = pad4 (year t) @ pad2 (month t) @ pad2 (day t)"

definition strftime_YmdH :: "datetime \<Rightarrow> string" where
  "strftime_YmdH t = strftime_Ymd t @ pad2 (hour t)"

definition strftime_YmdHM :: "datetime \<Rightarrow> string" where
  "strftime_YmdHM t = strftime_YmdH t @ pad2 (minute t)"

definition minute_key :: "string \<Rightarrow> string \<Rightarrow> datetime \<Rightarrow> string" where
  "minute_key user_id endpoint now =
     ''rate_limit:'' @ user_id @ '':'' @ endpoint @ '':'' @ ''minute:'' @ strftime_YmdHM now"

definition hour_key :: "string \<Rightarrow> string \<Rightarrow> datetime \<Rightarrow> string" where
  "hour_key user_id endpoint now =
     ''rate_limit:'' @ user_id @ '':'' @ endpoint @ '':'' @ ''hour:'' @ strftime_YmdH now"

subsection \<open>check\_rate\_limit\<close>

type_synonym rate_decision = "bool \<times> int \<times> int"

text \<open>
  The body of the \<open>try\<close>. An \<open>Inl\<close> from a helper is an exception that leaves the body;
  the helpers of this class catch their own exceptions, but the body is written for
  helpers that may raise, as the source is.
\<close>

definition check_rate_limit_body ::
  "redis_service \<Rightarrow> string \<Rightarrow> string \<Rightarrow> int \<Rightarrow> int \<Rightarrow> (exn + rate_decision) \<times> redis_service" where
  "check_rate_limit_body svc mkey hkey limit_per_minute limit_per_hour =
     (case get_counter svc mkey of
        (Inl e, s1) \<Rightarrow> (Inl e, s1)
      | (Inr minute_count, s1) \<Rightarrow>
     (case get_counter s1 hkey of
        (Inl e, s2) \<Rightarrow> (Inl e, s2)
      | (Inr hour_count, s2) \<Rightarrow>
     if minute_count \<ge> limit_per_minute \<or> hour_count \<ge> limit_per_hour
     then (Inr (False, minute_count, hour_count), s2)
     else
     (case increment_counter s2 mkey (Some 60) of
        (Inl e, s3) \<Rightarrow> (Inl e, s3)
      | (Inr _, s3) \<Rightarrow>
     (case increment_counter s3 hkey (Some 3600) of
        (Inl e, s4) \<Rightarrow> (Inl e, s4)
      | (Inr _, s4) \<Rightarrow> (Inr (True, minute_count + 1, hour_count + 1), s4)))))"

definition check_rate_limit ::
  "settings \<Rightarrow> redis_service \<Rightarrow> string \<Rightarrow> string \<Rightarrow> int option \<Rightarrow> int option \<Rightarrow> datetime
     \<Rightarrow> (exn + rate_decision) \<times> redis_service" where
  "check_rate_limit cfg svc user_id endpoint limit_per_minute limit_per_hour now =
     (case svc of
        None \<Rightarrow> (Inr (True, 0, 0), svc)
      | Some _ \<Rightarrow>
          (let lpm = py_or limit_per_minute (RATE_LIMIT_PER_MINUTE cfg);
               lph = py_or limit_per_hour (RATE_LIMIT_PER_HOUR cfg);
               mkey = minute_key user_id endpoint now;
               hkey = hour_key user_id endpoint now
           in (case check_rate_limit_body svc mkey hkey lpm lph of
                 (Inl e, s) \<Rightarrow> (Inr (True, 0, 0), s)
               | (Inr d, s) \<Rightarrow> (Inr d, s))))"

subsection \<open>get\_realtime\_stats\<close>

definition py_truediv :: "int \<Rightarrow> int \<Rightarrow> exn + rat" where
  "py_truediv a b = (if b = 0 then Inl ZeroDivisionError else Inr (of_int a / of_int b))"

definition success_rate :: "int \<Rightarrow> int \<Rightarrow> exn + pyval" where
  "success_rate success_requests total_requests =
     (if total_requests > 0
      then (case py_truediv success_requests total_requests of
              Inl e \<Rightarrow> Inl e
            | Inr q \<Rightarrow> Inr (PyFloat (q * 100)))
      else Inr (PyInt 0))"

definition get_realtime_stats_body ::
  "redis_service \<Rightarrow> datetime \<Rightarrow> (exn + (string \<times> pyval) list) \<times> redis_service" where
  "get_realtime_stats_body svc now =
     (let today = strftime_Ymd now in
      case get_counter svc (''requests:total:'' @ today) of
        (Inl e, s1) \<Rightarrow> (Inl e, s1)
      | (Inr total_requests, s1) \<Rightarrow>
     (case get_counter s1 (''requests:status:success:'' @ today) of
        (Inl e, s2) \<Rightarrow> (Inl e, s2)
      | (Inr success_requests, s2) \<Rightarrow>
     (case get_counter s2 (''requests:status:error:'' @ today) of
        (Inl e, s3) \<Rightarrow> (Inl e, s3)
      | (Inr error_requests, s3) \<Rightarrow>
     (case success_rate success_requests total_requests of
        Inl e \<Rightarrow> (Inl e, s3)
      | Inr rate \<Rightarrow>
          (Inr [(''total_requests_today'', PyInt total_requests),
                (''success_requests_today'', PyInt success_requests),
                (''error_requests_today'', PyInt error_requests),
                (''success_rate'', rate)], s3)))))"

definition get_realtime_stats ::
  "redis_service \<Rightarrow> datetime \<Rightarrow> (exn + (string \<times> pyval) list) \<times> redis_service" where
  "get_realtime_stats svc now =
     (case svc of
        None \<Rightarrow> (Inr [], svc)
      | Some _ \<Rightarrow>
          (case get_realtime_stats_body svc now of
             (Inl e, s) \<Rightarrow> (Inr [], s)
           | (Inr d, s) \<Rightarrow> (Inr d, s)))"

subsection \<open>Stores used in the closed examples\<close>

definition fresh_store :: redis_client where
  "fresh_store = \<lparr>db = (\<lambda>k. None), faults = (\<lambda>n. False), ops = 0\<rparr>"

definition unreachable_store :: redis_client where
  "unreachable_store = \<lparr>db = (\<lambda>k. None), faults = (\<lambda>n. True), ops = 0\<rparr>"

definition noon :: datetime where
  "noon = \<lparr>year = 2024, month = 5, day = 17, hour = 12, minute = 0, second = 0\<rparr>"

definition at_second :: "nat \<Rightarrow> datetime" where
  "at_second s = noon\<lparr>second := s\<rparr>"

definition at_minute :: "nat \<Rightarrow> datetime" where
  "at_minute m = noon\<lparr>minute := m\<rparr>"

text \<open>A store in which the subject has made 999 requests in the hour of \<open>noon\<close>.\<close>

definition busy_hour_store :: redis_client where
  "busy_hour_store =
     \<lparr>db = (\<lambda>k. if k = ''rate_limit:alice:/chat:hour:2024051712''
                   then Some (IntStr 999, Some 3600) else None),
      faults = (\<lambda>n. False), ops = 0\<rparr>"

subsection \<open>Sequential calls\<close>

text \<open>
  A caller that awaits each \<open>check_rate_limit\<close> before it makes the next one, for the
  same subject and endpoint; the list holds the clock reading of each call. The results
  are returned in order, with the service after the last call.
\<close>

fun sequential_calls ::
  "settings \<Rightarrow> redis_service \<Rightarrow> string \<Rightarrow> string \<Rightarrow> int option \<Rightarrow> int option \<Rightarrow> datetime list
     \<Rightarrow> (exn + rate_decision) list \<times> redis_service" where
  "sequential_calls cfg svc user_id endpoint lm lh [] = ([], svc)"
| "sequential_calls cfg svc user_id endpoint lm lh (now # ts) =
     (case check_rate_limit cfg svc user_id endpoint lm lh now of
        (res, svc') \<Rightarrow>
          (case sequential_calls cfg svc' user_id endpoint lm lh ts of
             (rs, svc'') \<Rightarrow> (res # rs, svc'')))"

text \<open>Two clock readings fall into the same minute window (and so into the same hour window).\<close>

definition same_minute :: "datetime \<Rightarrow> datetime \<Rightarrow> bool" where
  "same_minute t t0 \<longleftrightarrow>
     year t = year t0 \<and> month t = month t0 \<and> day t = day t0 \<and> hour t = hour t0 \<and> minute t = minute t0"

text \<open>Two clock readings fall into the same hour window.\<close>

definition same_hour :: "datetime \<Rightarrow> datetime \<Rightarrow> bool" where
  "same_hour t t0 \<longleftrightarrow>
     year t = year t0 \<and> month t = month t0 \<and> day t = day t0 \<and> hour t = hour t0"

text \<open>The store is available: no command raises.\<close>

definition no_faults :: "redis_client \<Rightarrow> bool" where
  "no_faults r \<longleftrightarrow> (\<forall>n. \<not> faults r n)"

text \<open>The key reads as the counter value \<open>c\<close>: it is absent and \<open>c = 0\<close>, or it holds \<open>c\<close>.\<close>

definition counter_at :: "redis_client \<Rightarrow> string \<Rightarrow> int \<Rightarrow> bool" where
  "counter_at r key c =
     (case db r key of
        None \<Rightarrow> c = 0
      | Some (IntStr n, ttl) \<Rightarrow> n = c
      | Some (OtherStr s, ttl) \<Rightarrow> False)"

text \<open>
  The decision expected of the call that finds \<open>k\<close> earlier calls in its window, when
  \<open>N\<close> calls of the window can be admitted and the hour counter stood at \<open>h0\<close> when the
  window began.
\<close>

definition expected :: "int \<Rightarrow> int \<Rightarrow> int \<Rightarrow> exn + rate_decision" where
  "expected N h0 k = Inr (k < N, min (k + 1) N, h0 + min (k + 1) N)"

subsection \<open>Concurrent calls\<close>

text \<open>
  \<open>check_rate_limit\<close> awaits four times: the two reads and the two increments. Between
  two of them the event loop may run another request. A request in flight is at one of
  these points, with the counts it has read so far; \<open>rl_step\<close> takes it to the next one,
  with the same helpers and the same branches as \<open>check_rate_limit\<close>. A schedule names
  the request that moves next; all requests are of one subject, endpoint and window, so
  they share the two keys and the two ceilings. The two commands inside
  \<open>increment_counter\<close> are one step here, so the schedules of this model are among those
  of the service.
\<close>

datatype rl_task = Start | Got_minute int | Got_both int int | Incremented_minute int int
  | Decided rate_decision

definition rl_step ::
  "string \<Rightarrow> string \<Rightarrow> int \<Rightarrow> int \<Rightarrow> rl_task \<Rightarrow> redis_service \<Rightarrow> rl_task \<times> redis_service" where
  "rl_step mkey hkey limit_per_minute limit_per_hour t svc =
     (case t of
        Start \<Rightarrow>
          (case svc of
             None \<Rightarrow> (Decided (True, 0, 0), svc)
           | Some _ \<Rightarrow>
               (case get_counter svc mkey of
                  (Inl e, s1) \<Rightarrow> (Decided (True, 0, 0), s1)
                | (Inr minute_count, s1) \<Rightarrow> (Got_minute minute_count, s1)))
      | Got_minute minute_count \<Rightarrow>
          (case get_counter svc hkey of
             (Inl e, s2) \<Rightarrow> (Decided (True, 0, 0), s2)
           | (Inr hour_count, s2) \<Rightarrow>
               (if minute_count \<ge> limit_per_minute \<or> hour_count \<ge> limit_per_hour
                then (Decided (False, minute_count, hour_count), s2)
                else (Got_both minute_count hour_count, s2)))
      | Got_both minute_count hour_count \<Rightarrow>
          (case increment_counter svc mkey (Some 60) of
             (Inl e, s3) \<Rightarrow> (Decided (True, 0, 0), s3)
           | (Inr _, s3) \<Rightarrow> (Incremented_minute minute_count hour_count, s3))
      | Incremented_minute minute_count hour_count \<Rightarrow>
          (case increment_counter svc hkey (Some 3600) of
             (Inl e, s4) \<Rightarrow> (Decided (True, 0, 0), s4)
           | (Inr _, s4) \<Rightarrow> (Decided (True, minute_count + 1, hour_count + 1), s4))
      | Decided d \<Rightarrow> (Decided d, svc))"

fun interleave ::
  "string \<Rightarrow> string \<Rightarrow> int \<Rightarrow> int \<Rightarrow> nat list \<Rightarrow> rl_task list \<times> redis_service
     \<Rightarrow> rl_task list \<times> redis_service" where
  "interleave mkey hkey lpm lph [] sys = sys"
| "interleave mkey hkey lpm lph (i # sched) (tasks, svc) =
     (if i < length tasks
      then (case rl_step mkey hkey lpm lph (tasks ! i) svc of
              (t', svc') \<Rightarrow> interleave mkey hkey lpm lph sched (tasks[i := t'], svc'))
      else interleave mkey hkey lpm lph sched (tasks, svc))"

fun task_admitted :: "rl_task \<Rightarrow> bool" where
  "task_admitted (Decided d) = fst d"
| "task_admitted _ = False"

fun admitted :: "exn + rate_decision \<Rightarrow> bool" where
  "admitted (Inr d) = fst d"
| "admitted (Inl e) = False"

section \<open>MetricsService (metrics\_service.py)\<close>

text \<open>
  The pipeline never looks inside a metric, so the type \<open>'m\<close> of metrics is a parameter.

  One record holds the service object (\<open>metrics_queue\<close>, \<open>running\<close>, \<open>worker_task\<close>) and
  what it acts on: the table \<open>llm_metrics\<close> of the database and the log. The local
  variables \<open>batch\<close> and \<open>last_flush\<close> of \<open>_process_metrics\<close> live in the frame of the
  worker task: \<open>Live batch last_flush\<close> while the coroutine runs, \<open>Finished\<close> once it has
  returned.

  The database can fail: \<open>sink_faults n\<close> says whether transaction number \<open>n\<close> (from 0)
  raises. A transaction that raises is rolled back and leaves the table as it was.
  \<open>attempts\<close> is a history variable: the batches handed to the database so far, one
  entry for each transaction begun. Its length is the number of the next transaction;
  nothing else reads it.

  A \<open>datetime\<close> of this part is a number of microseconds; the worker only subtracts them.
\<close>

datatype log_record =
    Service_started | Service_stopped | Worker_started | Worker_stopped
  | Flushed nat | Flush_failed exn | Queue_full_dropping | Processing_error exn

datatype 'm task = Live "'m list" int | Finished

record 'm system =
  metrics_queue :: "'m list"
  running :: bool
  worker_task :: "'m task option"
  llm_metrics :: "'m list"
  attempts :: "'m list list"
  sink_faults :: "nat \<Rightarrow> bool"
  log :: "log_record list"

text \<open>\<open>__init__\<close>, with the database and the log around it.\<close>

definition init_service :: "(nat \<Rightarrow> bool) \<Rightarrow> 'm system" where
  "init_service f =
     \<lparr>metrics_queue = [], running = False, worker_task = None,
      llm_metrics = [], attempts = [], sink_faults = f, log = []\<rparr>"

definition logger :: "log_record \<Rightarrow> 'm system \<Rightarrow> 'm system" where
  "logger x st = st\<lparr>log := log st @ [x]\<rparr>"

subsection \<open>The queue\<close>

text \<open>
  \<open>asyncio.Queue(maxsize)\<close>. \<open>full()\<close> is false for \<open>maxsize <= 0\<close>. \<open>put\<close> is the
  coroutine \<open>while self.full(): await putter\<close> followed by the append: on a full queue
  it suspends its caller until a consumer has made room, and it never raises
  \<open>QueueFull\<close> (\<open>put_nowait\<close> does, and the service does not call it). A call that does
  not come back while nothing else runs has the result \<open>Suspended\<close>.
\<close>

datatype 'a awaited = Returned 'a | Suspended

definition queue_full :: "settings \<Rightarrow> 'm system \<Rightarrow> bool" where
  "queue_full cfg st =
     (if METRICS_QUEUE_SIZE cfg \<le> 0 then False
      else int (length (metrics_queue st)) \<ge> METRICS_QUEUE_SIZE cfg)"

definition queue_put :: "settings \<Rightarrow> 'm system \<Rightarrow> 'm \<Rightarrow> ((exn + unit) \<times> 'm system) awaited" where
  "queue_put cfg st m =
     (if queue_full cfg st then Suspended
      else Returned (Inr (), st\<lparr>metrics_queue := metrics_queue st @ [m]\<rparr>))"

definition log_metric :: "settings \<Rightarrow> 'm system \<Rightarrow> 'm \<Rightarrow> ((exn + bool) \<times> 'm system) awaited" where
  "log_metric cfg st metric =
     (case queue_put cfg st metric of
        Suspended \<Rightarrow> Suspended
      | Returned (Inr _, st') \<Rightarrow> Returned (Inr True, st')
      | Returned (Inl e, st') \<Rightarrow>
          (if e = QueueFull then Returned (Inr False, logger Queue_full_dropping st')
           else Returned (Inl e, st')))"

text \<open>
  \<open>asyncio.wait_for(self.metrics_queue.get(), timeout=1.0)\<close>: the oldest metric, or
  \<open>TimeoutError\<close> when the queue stayed empty for the whole wait.
\<close>

definition wait_for_get :: "'m system \<Rightarrow> (exn + 'm) \<times> 'm system" where
  "wait_for_get st =
     (case metrics_queue st of
        [] \<Rightarrow> (Inl TimeoutError, st)
      | m # q \<Rightarrow> (Inr m, st\<lparr>metrics_queue := q\<rparr>))"

subsection \<open>\_flush\_batch\<close>

text \<open>
  The body of the \<open>try\<close>: one connection, one transaction, one \<open>execute\<close> for each metric
  of the batch, in order.
\<close>

definition bulk_insert :: "'m system \<Rightarrow> 'm list \<Rightarrow> (exn + unit) \<times> 'm system" where
  "bulk_insert st batch =
     (let n = length (attempts st);
          st1 = st\<lparr>attempts := attempts st @ [batch]\<rparr>
      in if sink_faults st n then (Inl SinkError, st1)
         else (Inr (), st1\<lparr>llm_metrics := llm_metrics st1 @ batch\<rparr>))"

definition flush_batch :: "'m system \<Rightarrow> 'm list \<Rightarrow> (exn + unit) \<times> 'm system" where
  "flush_batch st batch =
     (if batch = [] then (Inr (), st)
      else (case bulk_insert st batch of
              (Inl e, st1) \<Rightarrow> (Inr (), logger (Flush_failed e) st1)
            | (Inr _, st1) \<Rightarrow> (Inr (), logger (Flushed (length batch)) st1)))"

subsection \<open>\_process\_metrics\<close>

text \<open>
  What \<open>datetime.utcnow()\<close> returns at the three places of the loop body that call it:
  the test of the flush interval, the reset after a flush by time, the reset after a
  flush by count.
\<close>

record clock =
  at_check :: int
  after_time_flush :: int
  after_count_flush :: int

definition interval_elapsed :: "settings \<Rightarrow> int \<Rightarrow> int \<Rightarrow> bool" where
  "interval_elapsed cfg now last_flush \<longleftrightarrow>
     now - last_flush \<ge> METRICS_FLUSH_INTERVAL cfg * 1000000"

text \<open>
  The body of the loop works on the system and on the two locals of the frame. It is in
  two parts: the test of the flush interval, then the wait for a metric.
\<close>

type_synonym 'm frame = "'m system \<times> 'm list \<times> int"

definition time_trigger :: "settings \<Rightarrow> clock \<Rightarrow> 'm frame \<Rightarrow> (exn + unit) \<times> 'm frame" where
  "time_trigger cfg clk fr =
     (case fr of (st, batch, last_flush) \<Rightarrow>
        if interval_elapsed cfg (at_check clk) last_flush
        then (if batch \<noteq> []
              then (case flush_batch st batch of
                      (Inl e, st1) \<Rightarrow> (Inl e, st1, batch, last_flush)
                    | (Inr _, st1) \<Rightarrow> (Inr (), st1, [], after_time_flush clk))
              else (Inr (), st, batch, last_flush))
        else (Inr (), st, batch, last_flush))"

definition receive :: "settings \<Rightarrow> clock \<Rightarrow> 'm frame \<Rightarrow> (exn + unit) \<times> 'm frame" where
  "receive cfg clk fr =
     (case fr of (st, batch, last_flush) \<Rightarrow>
        (case wait_for_get st of
           (Inl e, st1) \<Rightarrow>
             (if e = TimeoutError then (Inr (), st1, batch, last_flush)
              else (Inl e, st1, batch, last_flush))
         | (Inr metric, st1) \<Rightarrow>
             (let batch1 = batch @ [metric] in
              if int (length batch1) \<ge> METRICS_BATCH_SIZE cfg
              then (case flush_batch st1 batch1 of
                      (Inl e, st2) \<Rightarrow>
                        (if e = TimeoutError then (Inr (), st2, batch1, last_flush)
                         else (Inl e, st2, batch1, last_flush))
                    | (Inr _, st2) \<Rightarrow> (Inr (), st2, [], after_count_flush clk))
              else (Inr (), st1, batch1, last_flush))))"

definition loop_body :: "settings \<Rightarrow> clock \<Rightarrow> 'm frame \<Rightarrow> (exn + unit) \<times> 'm frame" where
  "loop_body cfg clk fr =
     (case time_trigger cfg clk fr of
        (Inl e, fr1) \<Rightarrow> (Inl e, fr1)
      | (Inr _, fr1) \<Rightarrow> receive cfg clk fr1)"

text \<open>
  One pass of \<open>while self.running\<close>, on the frame of the live worker. An exception of the
  body is logged (and the worker sleeps a second). Without a live worker, or with
  \<open>running\<close> false, there is no pass.
\<close>

definition iteration :: "settings \<Rightarrow> clock \<Rightarrow> 'm system \<Rightarrow> 'm system" where
  "iteration cfg clk st =
     (case worker_task st of
        Some (Live batch last_flush) \<Rightarrow>
          (if running st
           then (case loop_body cfg clk (st, batch, last_flush) of
                   (Inl e, st', batch', last_flush') \<Rightarrow>
                     logger (Processing_error e) (st'\<lparr>worker_task := Some (Live batch' last_flush')\<rparr>)
                 | (Inr _, st', batch', last_flush') \<Rightarrow>
                     st'\<lparr>worker_task := Some (Live batch' last_flush')\<rparr>)
           else st)
      | _ \<Rightarrow> st)"


subsection \<open>start, stop and \_flush\_queue\<close>

definition start :: "int \<Rightarrow> 'm system \<Rightarrow> 'm system" where
  "start now st =
     (if \<not> running st
      then logger Worker_started
             (logger Service_started (st\<lparr>running := True, worker_task := Some (Live [] now)\<rparr>))
      else st)"




subsection \<open>Runs of the pipeline\<close>

text \<open>
  Between \<open>start\<close> and \<open>stop\<close> the event loop interleaves the producers' calls of
  \<open>log_metric\<close> with the passes of the worker's loop. The tasks change hands only at an
  \<open>await\<close>; a pass checks the clock, waits for a metric and may flush, and a metric
  that arrives during that wait or during a flush has the effect of one put before the
  pass. So a run is a list of actions, each carried out as a whole. A producer suspended
  on a full queue has put nothing; when its \<open>put\<close> goes through later, that is a
  \<open>Log_metric\<close> at that later place of the run.
\<close>

datatype 'm action = Log_metric 'm | Iteration clock

fun step :: "settings \<Rightarrow> 'm system \<Rightarrow> 'm action \<Rightarrow> 'm system" where
  "step cfg st (Log_metric m) =
     (case log_metric cfg st m of
        Returned (_, st') \<Rightarrow> st'
      | Suspended \<Rightarrow> st)"
| "step cfg st (Iteration clk) = iteration cfg clk st"

fun run :: "settings \<Rightarrow> 'm system \<Rightarrow> 'm action list \<Rightarrow> 'm system" where
  "run cfg st [] = st"
| "run cfg st (a # as) = run cfg (step cfg st a) as"


text \<open>
  Every metric the pipeline holds or has handed to the database, oldest first: the
  batches of all flush attempts, then the worker's batch, then the queue.
\<close>

definition pending :: "'m system \<Rightarrow> 'm list" where
  "pending st = (case worker_task st of Some (Live batch last_flush) \<Rightarrow> batch | _ \<Rightarrow> [])"


text \<open>The worker task exists and has not returned.\<close>

definition worker_live :: "'m system \<Rightarrow> bool" where
  "worker_live st = (case worker_task st of Some (Live batch last_flush) \<Rightarrow> True | _ \<Rightarrow> False)"

text \<open>What the service and its worker see of the system: all but the table and the log.\<close>

definition pipeline_view :: "'m system \<Rightarrow> 'm list \<times> bool \<times> 'm task option \<times> 'm list list" where
  "pipeline_view st = (metrics_queue st, running st, worker_task st, attempts st)"

subsection \<open>Runs with a clock\<close>

text \<open>
  Times are in microseconds, the resolution of \<open>datetime\<close>. A flush attempt of a pass is
  listed with what triggered it and with a clock reading of the pass: the reading of the
  interval test for a flush by time (the write begins then), the reading taken after the
  write for a flush by count.
\<close>

datatype trigger = By_time | By_count

definition pass_flushes :: "settings \<Rightarrow> clock \<Rightarrow> 'm system \<Rightarrow> (trigger \<times> int \<times> 'm list) list" where
  "pass_flushes cfg clk st =
     (case worker_task st of
        Some (Live batch last_flush) \<Rightarrow>
          (if running st
           then (case time_trigger cfg clk (st, batch, last_flush) of
                   (r1, st1, batch1, last_flush1) \<Rightarrow>
                     map (\<lambda>b. (By_time, at_check clk, b)) (drop (length (attempts st)) (attempts st1))
                     @ (case r1 of
                          Inl e \<Rightarrow> []
                        | Inr _ \<Rightarrow>
                            (case receive cfg clk (st1, batch1, last_flush1) of
                               (r2, st2, batch2, last_flush2) \<Rightarrow>
                                 map (\<lambda>b. (By_count, after_count_flush clk, b))
                                   (drop (length (attempts st1)) (attempts st2)))))
           else [])
      | _ \<Rightarrow> [])"

text \<open>
  The worker alone decides when its passes begin: a pass begins when the pass before it
  ends. The time of a pass goes into the awaits of the loop body. \<open>_flush_batch\<close> awaits
  the write to the sink, whose duration the code does not bound.
  \<open>asyncio.wait_for(self.metrics_queue.get(), timeout=1.0)\<close> returns at once when the
  queue is not empty, returns when a metric is put if that happens before the timeout,
  and raises \<open>TimeoutError\<close> one second after it began otherwise. The rest of the body
  takes no time.
\<close>

definition poll_timeout :: int where
  "poll_timeout = 1000000"

text \<open>
  A timed state is the system, the time at which the next pass of the worker begins, the
  calls of \<open>log_metric\<close> still to come, each with its time and in the order of the times,
  and the flush attempts made so far.
\<close>

record 'm timed =
  service :: "'m system"
  at_time :: int
  puts :: "(int \<times> 'm) list"
  flush_log :: "(trigger \<times> int \<times> 'm list) list"

text \<open>
  Whether the interval test of a pass that begins at \<open>t\<close> calls \<open>_flush_batch\<close>: the test
  of \<open>time_trigger\<close> itself, read off the history of the flush attempts.
\<close>

definition fires_by_time :: "settings \<Rightarrow> int \<Rightarrow> 'm system \<Rightarrow> bool" where
  "fires_by_time cfg t st =
     (case worker_task st of
        Some (Live batch last_flush) \<Rightarrow>
          (if running st
           then (case time_trigger cfg \<lparr>at_check = t, after_time_flush = t, after_count_flush = t\<rparr>
                        (st, batch, last_flush) of
                   (r, st1, fr) \<Rightarrow> length (attempts st) < length (attempts st1))
           else False)
      | _ \<Rightarrow> False)"

text \<open>
  The wait for a metric that begins at \<open>t\<close>, with \<open>later\<close> the calls of \<open>log_metric\<close> that
  come after \<open>t\<close>. It gives the time at which the wait ends. A metric put during the wait
  ends it; \<open>wait_for_get\<close> then finds that metric in the queue.
\<close>

definition await_metric ::
  "settings \<Rightarrow> int \<Rightarrow> 'm system \<Rightarrow> (int \<times> 'm) list \<Rightarrow> int \<times> 'm system \<times> (int \<times> 'm) list" where
  "await_metric cfg t st later =
     (if metrics_queue st \<noteq> [] then (t, st, later)
      else (case later of
              [] \<Rightarrow> (t + poll_timeout, st, [])
            | a # as \<Rightarrow>
                (if fst a < t + poll_timeout
                 then (fst a, step cfg st (Log_metric (snd a)), as)
                 else (t + poll_timeout, st, later))))"

text \<open>
  One pass of the loop, with \<open>write_time n\<close> the duration of the write of the flush
  attempt number \<open>n\<close>. The interval test reads the clock at \<open>t0\<close>. If it flushes, the
  write lasts until \<open>t1\<close>, which is the reading that resets \<open>last_flush\<close>. The calls of
  \<open>log_metric\<close> made up to \<open>t1\<close> have put their metrics when the wait begins, and the wait
  ends at \<open>t2\<close>. If the metric received fills the batch, the write of the flush by count
  follows, and the reading after it resets \<open>last_flush\<close>. The body itself is \<open>iteration\<close>,
  given these readings. The \<open>asyncio.sleep(1)\<close> of the handler takes no part: the body of
  the loop raises no exception (lemma \<open>loop_body_returns\<close>).
\<close>

definition timed_pass :: "settings \<Rightarrow> (nat \<Rightarrow> int) \<Rightarrow> 'm timed \<Rightarrow> 'm timed" where
  "timed_pass cfg write_time ts =
     (let t0 = at_time ts;
          st0 = service ts;
          n1 = length (attempts st0);
          fired = fires_by_time cfg t0 st0;
          t1 = (if fired then t0 + write_time n1 else t0);
          st1 = run cfg st0 (map (\<lambda>a. Log_metric (snd a)) (takeWhile (\<lambda>a. fst a \<le> t1) (puts ts)))
      in (case await_metric cfg t1 st1 (dropWhile (\<lambda>a. fst a \<le> t1) (puts ts)) of
            (t2, st2, later) \<Rightarrow>
              (let n2 = (if fired then Suc n1 else n1);
                   clk = \<lparr>at_check = t0, after_time_flush = t1,
                          after_count_flush = t2 + write_time n2\<rparr>;
                   st3 = iteration cfg clk st2
               in \<lparr>service = st3,
                   at_time = (if n2 < length (attempts st3) then t2 + write_time n2 else t2),
                   puts = later,
                   flush_log = flush_log ts @ pass_flushes cfg clk st2\<rparr>)))"

fun timed_run :: "settings \<Rightarrow> (nat \<Rightarrow> int) \<Rightarrow> nat \<Rightarrow> 'm timed \<Rightarrow> 'm timed" where
  "timed_run cfg write_time 0 ts = ts"
| "timed_run cfg write_time (Suc n) ts = timed_run cfg write_time n (timed_pass cfg write_time ts)"

text \<open>The local \<open>last_flush\<close> of the live worker.\<close>

definition last_flush_of :: "'m system \<Rightarrow> int option" where
  "last_flush_of st =
     (case worker_task st of Some (Live batch last_flush) \<Rightarrow> Some last_flush | _ \<Rightarrow> None)"

subsection \<open>Systems used in the closed examples\<close>

definition tick :: "int \<Rightarrow> clock" where
  "tick t = \<lparr>at_check = t, after_time_flush = t, after_count_flush = t\<rparr>"

definition three_failing :: "nat system" where
  "three_failing =
     \<lparr>metrics_queue = [1, 2, 3], running = True, worker_task = Some (Live [] 0),
      llm_metrics = [], attempts = [], sink_faults = (\<lambda>n. n = 0), log = []\<rparr>"

definition batches_of_three :: settings where
  "batches_of_three = default_settings\<lparr>METRICS_BATCH_SIZE := 3\<rparr>"

definition three_then_three :: "nat action list" where
  "three_then_three =
     [Iteration (tick 1), Iteration (tick 2), Iteration (tick 3),
      Log_metric 4, Log_metric 5, Log_metric 6,
      Iteration (tick 4), Iteration (tick 5), Iteration (tick 6)]"


definition batches_of_two :: settings where
  "batches_of_two = default_settings\<lparr>METRICS_BATCH_SIZE := 2\<rparr>"

definition just_flushed :: "nat system" where
  "just_flushed =
     \<lparr>metrics_queue = [], running = True, worker_task = Some (Live [] 0),
      llm_metrics = [1, 2], attempts = [[1, 2]], sink_faults = (\<lambda>n. False), log = [Flushed 2]\<rparr>"

text \<open>
  Writes that take no time, and a first write that takes three seconds. A service started
  at time 0 with calls of \<open>log_metric\<close> to come. Batch size 2: the metrics 1 and 2 are put
  at 0 and the metric 3 at 1 s, while the write of \<open>[1, 2]\<close> is running; the state after the
  two passes that end with that write. The same after a write that took no time.
\<close>

definition instant_write :: "nat \<Rightarrow> int" where
  "instant_write n = 0"




definition after_fast_write :: "nat timed" where
  "after_fast_write = \<lparr>service = just_flushed, at_time = 0, puts = [(1000000, 3)], flush_log = []\<rparr>"

section \<open>Properties of the helpers\<close>

lemma get_counter_returns: "\<exists>n s. get_counter svc key = (Inr n, s)"
  by (auto simp: get_counter_def redis_get_def split: option.splits sum.splits prod.splits)

lemma increment_counter_returns: "\<exists>n s. increment_counter svc key ttl = (Inr n, s)"
  by (auto simp: increment_counter_def split: option.splits sum.splits prod.splits)


lemma no_faults_issue [simp]: "no_faults (issue r) = no_faults r"
  by (simp add: no_faults_def issue_def)

lemma counter_at_issue [simp]: "counter_at (issue r) key c = counter_at r key c"
  by (simp add: counter_at_def issue_def)

lemma db_issue [simp]: "db (issue r) = db r"
  by (simp add: issue_def)

lemma get_counter_read:
  "no_faults r \<Longrightarrow> counter_at r key c \<Longrightarrow> get_counter (Some r) key = (Inr c, Some (issue r))"
  by (auto simp: get_counter_def redis_get_def no_faults_def counter_at_def
      split: option.splits redis_value.splits prod.splits)

lemma increment_counter_write:
  assumes "no_faults r" "counter_at r key c" "ttl \<noteq> 0"
  shows "\<exists>r'. increment_counter (Some r) key (Some ttl) = (Inr (c + 1), Some r')
            \<and> no_faults r' \<and> counter_at r' key (c + 1)
            \<and> (\<forall>k. k \<noteq> key \<longrightarrow> db r' k = db r k)"
  using assms
  by (auto simp: increment_counter_def redis_incr_def redis_expire_def no_faults_def counter_at_def issue_def
      split: option.splits redis_value.splits prod.splits)

lemma counter_at_frame: "db r' key = db r key \<Longrightarrow> counter_at r' key c = counter_at r key c"
  by (simp add: counter_at_def)

lemma body_admit:
  assumes "no_faults r" "counter_at r mk c" "counter_at r hk h" "mk \<noteq> hk" "c < lpm" "h < lph"
  shows "\<exists>r'. check_rate_limit_body (Some r) mk hk lpm lph = (Inr (True, c + 1, h + 1), Some r')
            \<and> no_faults r' \<and> counter_at r' mk (c + 1) \<and> counter_at r' hk (h + 1)"
proof -
  have g1: "get_counter (Some r) mk = (Inr c, Some (issue r))"
    using assms by (simp add: get_counter_read)
  have g2: "get_counter (Some (issue r)) hk = (Inr h, Some (issue (issue r)))"
    using assms by (simp add: get_counter_read)
  let ?r2 = "issue (issue r)"
  have "no_faults ?r2" "counter_at ?r2 mk c" using assms by simp_all
  from increment_counter_write[OF this, of 60] obtain r3 where
    i1: "increment_counter (Some ?r2) mk (Some 60) = (Inr (c + 1), Some r3)"
    and nf3: "no_faults r3" and c3: "counter_at r3 mk (c + 1)"
    and fr3: "\<forall>k. k \<noteq> mk \<longrightarrow> db r3 k = db ?r2 k" by auto
  have h3: "counter_at r3 hk h"
    using fr3 assms(3,4) by (simp add: counter_at_def)
  from increment_counter_write[OF nf3 h3, of 3600] obtain r4 where
    i2: "increment_counter (Some r3) hk (Some 3600) = (Inr (h + 1), Some r4)"
    and nf4: "no_faults r4" and c4: "counter_at r4 hk (h + 1)"
    and fr4: "\<forall>k. k \<noteq> hk \<longrightarrow> db r4 k = db r3 k" by auto
  have m4: "counter_at r4 mk (c + 1)"
    using fr4 c3 assms(4) by (simp add: counter_at_def)
  show ?thesis
    using g1 g2 i1 i2 nf4 m4 c4 assms(5,6)
    by (simp add: check_rate_limit_body_def)
qed

lemma body_reject:
  assumes "no_faults r" "counter_at r mk c" "counter_at r hk h" "lpm \<le> c \<or> lph \<le> h"
  shows "check_rate_limit_body (Some r) mk hk lpm lph = (Inr (False, c, h), Some (issue (issue r)))"
proof -
  have g1: "get_counter (Some r) mk = (Inr c, Some (issue r))"
    using assms by (simp add: get_counter_read)
  have g2: "get_counter (Some (issue r)) hk = (Inr h, Some (issue (issue r)))"
    using assms by (simp add: get_counter_read)
  show ?thesis using g1 g2 assms(4) by (auto simp add: check_rate_limit_body_def)
qed

lemma keys_differ: "minute_key u e t \<noteq> hour_key u e t'"
  by (simp add: minute_key_def hour_key_def)

lemma same_minute_keys:
  "same_minute t t0 \<Longrightarrow> minute_key u e t = minute_key u e t0 \<and> hour_key u e t = hour_key u e t0"
  by (simp add: same_minute_def minute_key_def hour_key_def strftime_YmdHM_def strftime_YmdH_def strftime_Ymd_def)


lemma check_rate_limit_Some:
  "check_rate_limit cfg (Some r) u e lm lh now =
     (case check_rate_limit_body (Some r) (minute_key u e now) (hour_key u e now)
             (py_or lm (RATE_LIMIT_PER_MINUTE cfg)) (py_or lh (RATE_LIMIT_PER_HOUR cfg)) of
        (Inl ex, s) \<Rightarrow> (Inr (True, 0, 0), s)
      | (Inr d, s) \<Rightarrow> (Inr d, s))"
  by (simp add: check_rate_limit_def)

lemma map_upt_Suc_shift: "map f [0..<Suc n] = f 0 # map (\<lambda>i. f (Suc i)) [0..<n]"
  by (simp only: upt_rec[of 0 "Suc n"] map_Suc_upt[symmetric]) (simp add: comp_def)


lemma seq_general:
  assumes "\<forall>t\<in>set ts. same_minute t t0"
    and "N = py_or lm (RATE_LIMIT_PER_MINUTE cfg)" and "H = py_or lh (RATE_LIMIT_PER_HOUR cfg)"
    and "M = max 0 (min N (H - h0))"
    and "no_faults r" and "counter_at r (minute_key u e t0) c"
    and "counter_at r (hour_key u e t0) (h0 + c)" and "0 \<le> c" and "c \<le> M"
  shows "\<exists>r'. sequential_calls cfg (Some r) u e lm lh ts =
            (map (\<lambda>i. expected M h0 (c + int i)) [0..<length ts], Some r')
          \<and> no_faults r'
          \<and> counter_at r' (minute_key u e t0) (min (c + int (length ts)) M)
          \<and> counter_at r' (hour_key u e t0) (h0 + min (c + int (length ts)) M)"
  using assms
proof (induction ts arbitrary: r c)
  case Nil
  then show ?case by simp
next
  case (Cons t ts)
  let ?mk = "minute_key u e t0" and ?hk = "hour_key u e t0"
  have keys: "minute_key u e t = ?mk" "hour_key u e t = ?hk"
    using Cons.prems(1) same_minute_keys[of t t0 u e] by simp_all
  have rest: "\<forall>t\<in>set ts. same_minute t t0" using Cons.prems(1) by simp
  show ?case
  proof (cases "c < M")
    case True
    then have clt: "c < N" and hlt: "h0 + c < H" using Cons.prems(4,8) by simp_all
    from body_admit[OF Cons.prems(5) Cons.prems(6) Cons.prems(7) keys_differ clt hlt]
    obtain r1 where
      b: "check_rate_limit_body (Some r) ?mk ?hk N H = (Inr (True, c + 1, h0 + c + 1), Some r1)"
      and nf: "no_faults r1" and cm: "counter_at r1 ?mk (c + 1)" and ch: "counter_at r1 ?hk (h0 + c + 1)"
      by auto
    have call: "check_rate_limit cfg (Some r) u e lm lh t = (Inr (True, c + 1, h0 + c + 1), Some r1)"
      using b keys Cons.prems(2,3) by (simp add: check_rate_limit_Some)
    have ch': "counter_at r1 ?hk (h0 + (c + 1))" using ch by (simp add: add.assoc)
    from Cons.IH[OF rest Cons.prems(2) Cons.prems(3) Cons.prems(4) nf cm ch'] True Cons.prems(8)
    obtain r' where
      ih: "sequential_calls cfg (Some r1) u e lm lh ts =
             (map (\<lambda>i. expected M h0 (c + 1 + int i)) [0..<length ts], Some r')"
      and nf': "no_faults r'"
      and cm': "counter_at r' ?mk (min (c + 1 + int (length ts)) M)"
      and chh: "counter_at r' ?hk (h0 + min (c + 1 + int (length ts)) M)"
      by auto
    have hd: "expected M h0 c = Inr (True, c + 1, h0 + c + 1)"
      using True by (simp add: expected_def)
    have "sequential_calls cfg (Some r) u e lm lh (t # ts) =
            (map (\<lambda>i. expected M h0 (c + int i)) [0..<length (t # ts)], Some r')"
      using call ih hd by (simp add: map_upt_Suc_shift add.commute add.left_commute del: upt_Suc)
    moreover have "c + int (length (t # ts)) = c + 1 + int (length ts)" by simp
    ultimately show ?thesis using nf' cm' chh by metis
  next
    case False
    then have cN: "c = M" using Cons.prems(9) by simp
    have full: "N \<le> c \<or> H \<le> h0 + c" using cN Cons.prems(4,8) by auto
    have rej: "check_rate_limit_body (Some r) ?mk ?hk N H = (Inr (False, c, h0 + c), Some (issue (issue r)))"
      using body_reject[OF Cons.prems(5) Cons.prems(6) Cons.prems(7) full] by simp
    have call: "check_rate_limit cfg (Some r) u e lm lh t = (Inr (False, c, h0 + c), Some (issue (issue r)))"
      using rej keys Cons.prems(2,3) by (simp add: check_rate_limit_Some)
    have pre: "no_faults (issue (issue r))" "counter_at (issue (issue r)) ?mk c"
      "counter_at (issue (issue r)) ?hk (h0 + c)"
      using Cons.prems by simp_all
    from Cons.IH[OF rest Cons.prems(2) Cons.prems(3) Cons.prems(4) pre Cons.prems(8) Cons.prems(9)]
    obtain r' where
      ih: "sequential_calls cfg (Some (issue (issue r))) u e lm lh ts =
             (map (\<lambda>i. expected M h0 (c + int i)) [0..<length ts], Some r')"
      and nf': "no_faults r'"
      and cm': "counter_at r' ?mk (min (c + int (length ts)) M)"
      and chh: "counter_at r' ?hk (h0 + min (c + int (length ts)) M)"
      by auto
    have flat: "expected M h0 (c + int i) = Inr (False, c, h0 + c)" for i
      using cN by (simp add: expected_def)
    have "sequential_calls cfg (Some r) u e lm lh (t # ts) =
            (map (\<lambda>i. expected M h0 (c + int i)) [0..<length (t # ts)], Some r')"
      using call ih by (simp add: map_upt_Suc_shift flat del: upt_Suc)
    moreover have "min (c + int (length (t # ts))) M = min (c + int (length ts)) M"
      using cN by simp
    ultimately show ?thesis using nf' cm' chh by metis
  qed
qed



section \<open>The rate limiter under sequential calls\<close>

text \<open>
  Claim C2, as stated: with the store available and the calls made one after the other,
  the first \<open>N\<close> calls of a window are admitted, \<open>N\<close> the minute ceiling. With the default
  ceilings 60 and 1000 and the hour counter at 999, the second call of a fresh minute is
  rejected: the hour ceiling is tested in the same condition as the minute ceiling.
\<close>

theorem hour_ceiling_rejects_below_minute_ceiling:
  "no_faults busy_hour_store
   \<and> db busy_hour_store (minute_key ''alice'' ''/chat'' noon) = None
   \<and> py_or None (RATE_LIMIT_PER_MINUTE default_settings) = 60
   \<and> fst (sequential_calls default_settings (Some busy_hour_store) ''alice'' ''/chat'' None None
        [at_second 1, at_second 2, at_second 3])
     = [Inr (True, 1, 1000), Inr (False, 1, 1000), Inr (False, 1, 1000)]"
  by (simp add: no_faults_def busy_hour_store_def default_settings_def
      check_rate_limit_def check_rate_limit_body_def get_counter_def increment_counter_def
      redis_get_def redis_incr_def redis_expire_def issue_def
      minute_key_def hour_key_def strftime_YmdHM_def strftime_YmdH_def strftime_Ymd_def
      pad2_def pad4_def digit_def noon_def at_second_def Let_def)

text \<open>
  Claim C2, amended. The window starts with no minute counter and with the hour counter
  at \<open>h0\<close>; \<open>N\<close> and \<open>H\<close> are the minute and the hour ceiling. The calls admitted are the
  first \<open>M = max 0 (min N (H - h0))\<close>: call number \<open>i\<close> (from 0) returns
  \<open>(i < M, min (i + 1) M, h0 + min (i + 1) M)\<close>, so the admitted calls report the minute
  counts \<open>1, ..., M\<close> and every later call of the window is rejected with the minute
  count \<open>M\<close>. After \<open>k\<close> calls the two counters stand at \<open>min k M\<close> and \<open>h0 + min k M\<close>:
  a rejected call increments neither. \<open>M\<close> is \<open>N\<close> when \<open>0 \<le> N\<close> and \<open>h0 + N \<le> H\<close>.
\<close>

theorem sequential_rate_limit:
  assumes "no_faults r"
    and "db r (minute_key user_id endpoint t0) = None"
    and "counter_at r (hour_key user_id endpoint t0) h0"
    and "\<forall>t\<in>set ts. same_minute t t0"
    and "N = py_or lm (RATE_LIMIT_PER_MINUTE cfg)"
    and "H = py_or lh (RATE_LIMIT_PER_HOUR cfg)"
    and "M = max 0 (min N (H - h0))"
  shows "\<exists>r'. sequential_calls cfg (Some r) user_id endpoint lm lh ts =
            (map (\<lambda>i. Inr (int i < M, min (int i + 1) M, h0 + min (int i + 1) M)) [0..<length ts],
             Some r')
          \<and> counter_at r' (minute_key user_id endpoint t0) (min (int (length ts)) M)
          \<and> counter_at r' (hour_key user_id endpoint t0) (h0 + min (int (length ts)) M)"
proof -
  have m0: "counter_at r (minute_key user_id endpoint t0) 0"
    using assms(2) by (simp add: counter_at_def)
  have h: "counter_at r (hour_key user_id endpoint t0) (h0 + 0)"
    using assms(3) by simp
  have z: "(0::int) \<le> 0" by simp
  have zM: "0 \<le> M" using assms(7) by simp
  from seq_general[OF assms(4) assms(5) assms(6) assms(7) assms(1) m0 h z zM]
  show ?thesis by (auto simp: expected_def)
qed

text \<open>
  The scenario of the specification: ceiling 3 per minute, five calls inside one minute,
  on an empty store with the default hour ceiling.
\<close>

theorem sequential_rate_limit_witness:
  "no_faults fresh_store
   \<and> db fresh_store (minute_key ''alice'' ''/chat'' noon) = None
   \<and> counter_at fresh_store (hour_key ''alice'' ''/chat'' noon) 0
   \<and> list_all (\<lambda>t. same_minute t noon)
        [at_second 1, at_second 7, at_second 20, at_second 41, at_second 59]
   \<and> py_or (Some 3) (RATE_LIMIT_PER_MINUTE default_settings) = 3
   \<and> py_or None (RATE_LIMIT_PER_HOUR default_settings) = 1000
   \<and> max 0 (min 3 (1000 - 0)) = (3::int)
   \<and> fst (sequential_calls default_settings (Some fresh_store) ''alice'' ''/chat'' (Some 3) None
        [at_second 1, at_second 7, at_second 20, at_second 41, at_second 59])
     = [Inr (True, 1, 1), Inr (True, 2, 2), Inr (True, 3, 3), Inr (False, 3, 3), Inr (False, 3, 3)]"
proof -
  have a1: "no_faults fresh_store" by (simp add: no_faults_def fresh_store_def)
  have a2: "db fresh_store (minute_key ''alice'' ''/chat'' noon) = None"
    by (simp add: fresh_store_def)
  have a3: "counter_at fresh_store (hour_key ''alice'' ''/chat'' noon) 0"
    by (simp add: counter_at_def fresh_store_def)
  have a4: "\<forall>t\<in>set [at_second 1, at_second 7, at_second 20, at_second 41, at_second 59]. same_minute t noon"
    by (simp add: same_minute_def at_second_def)
  have a5: "(3::int) = py_or (Some 3) (RATE_LIMIT_PER_MINUTE default_settings)" by simp
  have a6: "(1000::int) = py_or None (RATE_LIMIT_PER_HOUR default_settings)"
    by (simp add: default_settings_def)
  have a7: "(3::int) = max 0 (min 3 (1000 - 0))" by simp
  let ?ts = "[at_second 1, at_second 7, at_second 20, at_second 41, at_second 59]"
  from sequential_rate_limit[OF a1 a2 a3 a4 a5 a6 a7]
  obtain r' where eq:
    "sequential_calls default_settings (Some fresh_store) ''alice'' ''/chat'' (Some 3) None ?ts
     = (map (\<lambda>i. Inr (int i < 3, min (int i + 1) 3, 0 + min (int i + 1) 3)) [0..<length ?ts], Some r')"
    by blast
  have "map (\<lambda>i. Inr (int i < 3, min (int i + 1) 3, 0 + min (int i + 1) 3)) [0..<length ?ts]
     = [Inr (True, 1, 1), Inr (True, 2, 2), Inr (True, 3, 3), Inr (False, 3, 3), Inr (False, 3, 3 :: int)]"
    by (simp add: upt_rec)
  then have "fst (sequential_calls default_settings (Some fresh_store) ''alice'' ''/chat'' (Some 3) None ?ts)
     = [Inr (True, 1, 1), Inr (True, 2, 2), Inr (True, 3, 3), Inr (False, 3, 3), Inr (False, 3, 3)]"
    by (simp only: eq fst_conv)
  moreover have "list_all (\<lambda>t. same_minute t noon)
        [at_second 1, at_second 7, at_second 20, at_second 41, at_second 59]"
    by (simp add: same_minute_def at_second_def)
  ultimately show ?thesis using a1 a2 a3 a5[symmetric] a6[symmetric] a7[symmetric] by blast
qed

section \<open>The rate limiter when the store fails\<close>

text \<open>
  No exception leaves the body of the \<open>try\<close>: the helpers have caught it already. So the
  handler of \<open>check_rate_limit\<close> that returns \<open>(True, 0, 0)\<close> is never entered, and the
  call always returns a decision.
\<close>

lemma check_rate_limit_body_returns:
  "\<exists>d s. check_rate_limit_body svc mk hk lpm lph = (Inr d, s)"
proof -
  obtain c s1 where g1: "get_counter svc mk = (Inr c, s1)"
    using get_counter_returns by blast
  obtain h s2 where g2: "get_counter s1 hk = (Inr h, s2)"
    using get_counter_returns by blast
  obtain v s3 where i1: "increment_counter s2 mk (Some 60) = (Inr v, s3)"
    using increment_counter_returns by blast
  obtain w s4 where i2: "increment_counter s3 hk (Some 3600) = (Inr w, s4)"
    using increment_counter_returns by blast
  show ?thesis using g1 g2 i1 i2 by (auto simp add: check_rate_limit_body_def)
qed

lemma check_rate_limit_returns:
  "\<exists>d s. check_rate_limit cfg svc u e lm lh now = (Inr d, s)"
proof (cases svc)
  case None
  then show ?thesis by (auto simp add: check_rate_limit_def)
next
  case (Some r)
  obtain d s where "check_rate_limit_body (Some r) (minute_key u e now) (hour_key u e now)
             (py_or lm (RATE_LIMIT_PER_MINUTE cfg)) (py_or lh (RATE_LIMIT_PER_HOUR cfg)) = (Inr d, s)"
    using check_rate_limit_body_returns by blast
  then show ?thesis using Some by (cases d) (simp add: check_rate_limit_Some)
qed

lemma check_rate_limit_no_connection:
  "check_rate_limit cfg None u e lm lh now = (Inr (True, 0, 0), None)"
  by (simp add: check_rate_limit_def)

text \<open>
  Claim C6. When every command to the counter store raises, \<open>check_rate_limit\<close> should
  admit the request and report zero counts. On a connected client whose commands all
  raise, with the default ceilings, it admits the request but reports the counts
  \<open>(1, 1)\<close>: both reads are answered with 0 by \<open>get_counter\<close>, both increments are
  swallowed by \<open>increment_counter\<close>, and the function returns the counts it read plus one.
\<close>

theorem rate_limit_unreachable_store_counts:
  "fst (check_rate_limit default_settings (Some unreachable_store) ''alice'' ''/chat'' None None noon)
     = Inr (True, 1, 1)"
  by (simp add: check_rate_limit_def check_rate_limit_body_def get_counter_def increment_counter_def
      redis_get_def redis_incr_def redis_expire_def unreachable_store_def default_settings_def issue_def)

section \<open>Real-time statistics\<close>

text \<open>
  Claim C10. \<open>get_realtime_stats\<close> should return the empty dict when a store operation
  fails. On a connected client whose commands all raise it returns the dict of four
  entries, all zero: \<open>get_counter\<close> has turned each failure into the count 0.
\<close>

theorem realtime_stats_unreachable_store:
  "fst (get_realtime_stats (Some unreachable_store) noon)
     = Inr [(''total_requests_today'', PyInt 0), (''success_requests_today'', PyInt 0),
            (''error_requests_today'', PyInt 0), (''success_rate'', PyInt 0)]"
  by (simp add: get_realtime_stats_def get_realtime_stats_body_def get_counter_def success_rate_def
      redis_get_def unreachable_store_def issue_def)


section \<open>The event queue\<close>



lemma log_metric_never_False: "log_metric cfg st m \<noteq> Returned (Inr False, st')"
  by (simp add: log_metric_def queue_put_def)

text \<open>
  Claim C1. On a queue that holds its capacity of pending metrics, \<open>log_metric\<close> should
  return \<open>False\<close> at once and leave the queue as it is. With the default capacity 1000
  and 1000 metrics in the queue the call does not return: the caller is suspended in
  \<open>put\<close>.
\<close>

theorem log_metric_full_queue_suspends:
  "log_metric default_settings
     ((init_service (\<lambda>n. False))\<lparr>metrics_queue := replicate 1000 (0::nat)\<rparr>) 1 = Suspended"
  by (simp add: log_metric_def queue_put_def queue_full_def default_settings_def init_service_def)

section \<open>The batch flusher\<close>

text \<open>
  \<open>_flush_batch\<close> always returns: it appends the batch to the table and logs the count,
  or it logs the failure and leaves the table as it was. It touches neither the queue
  nor the flag nor the worker's frame.
\<close>

lemma flush_batch_eq:
  "flush_batch st b =
     (Inr (),
      if b = [] then st
      else if sink_faults st (length (attempts st))
           then st\<lparr>attempts := attempts st @ [b], log := log st @ [Flush_failed SinkError]\<rparr>
           else st\<lparr>llm_metrics := llm_metrics st @ b, attempts := attempts st @ [b],
                   log := log st @ [Flushed (length b)]\<rparr>)"
  by (simp add: flush_batch_def bulk_insert_def logger_def Let_def)



subsection \<open>Nothing is lost between the queue and the flush\<close>





lemma step_keeps_running: "running (step cfg st a) = running st"
  by (cases a)
    (auto simp: log_metric_def queue_put_def iteration_def loop_body_def time_trigger_def receive_def
      wait_for_get_def flush_batch_eq Let_def
      split: option.splits task.splits list.splits)

lemma step_keeps_worker: "worker_live (step cfg st a) = worker_live st"
  by (cases a)
    (auto simp: log_metric_def queue_put_def iteration_def loop_body_def time_trigger_def receive_def
      wait_for_get_def flush_batch_eq Let_def worker_live_def
      split: option.splits task.splits list.splits)

lemma run_keeps_running: "running (run cfg st acts) = running st"
  by (induction acts arbitrary: st) (simp_all add: step_keeps_running del: step.simps)

lemma run_keeps_worker: "worker_live (run cfg st acts) = worker_live st"
  by (induction acts arbitrary: st) (simp_all add: step_keeps_worker del: step.simps)





subsection \<open>A failed write\<close>

text \<open>
  The queue, the flag, the worker's frame and the list of attempts after a run do not
  depend on which transactions fail.
\<close>

lemma step_view:
  assumes "pipeline_view st = pipeline_view st'"
  shows "pipeline_view (step cfg st a) = pipeline_view (step cfg st' a)"
proof (cases a)
  case (Log_metric m)
  then show ?thesis using assms
    by (auto simp: pipeline_view_def log_metric_def queue_put_def queue_full_def)
next
  case (Iteration clk)
  then show ?thesis using assms
    by (auto simp: pipeline_view_def iteration_def loop_body_def time_trigger_def receive_def
        wait_for_get_def flush_batch_eq Let_def
        split: option.splits task.splits list.splits)
qed

lemma run_view:
  "pipeline_view st = pipeline_view st' \<Longrightarrow>
   pipeline_view (run cfg st acts) = pipeline_view (run cfg st' acts)"
proof (induction acts arbitrary: st st')
  case Nil
  then show ?case by simp
next
  case (Cons a acts)
  from step_view[OF Cons.prems] have "pipeline_view (step cfg st a) = pipeline_view (step cfg st' a)" .
  from Cons.IH[OF this] show ?case by simp
qed

text \<open>
  Claim C5. Let the next transaction of the database fail. Then \<open>_flush_batch\<close> on a
  non-empty batch returns normally, and all it changes is the log, which gains the
  failure, and the history of attempts, which gains this one batch: the table does not
  get the batch, the queue does not get it back, and there is no second attempt. In every
  run from such a state the service stays running and the worker alive, and the queue,
  the worker's frame and the attempts are those of the same run over a database that
  never fails.
\<close>

theorem failed_flush_is_dropped:
  assumes "running st" and "worker_live st"
    and "batch \<noteq> []" and "sink_faults st (length (attempts st))"
  shows "flush_batch st batch
           = (Inr (), st\<lparr>attempts := attempts st @ [batch],
                         log := log st @ [Flush_failed SinkError]\<rparr>)
       \<and> running (run cfg st acts)
       \<and> worker_live (run cfg st acts)
       \<and> pipeline_view (run cfg st acts)
           = pipeline_view (run cfg (st\<lparr>sink_faults := \<lambda>n. False\<rparr>) acts)"
proof -
  have eq: "flush_batch st batch
           = (Inr (), st\<lparr>attempts := attempts st @ [batch],
                         log := log st @ [Flush_failed SinkError]\<rparr>)"
    using assms(3,4) by (simp add: flush_batch_eq)
  have v: "pipeline_view st = pipeline_view (st\<lparr>sink_faults := \<lambda>n. False\<rparr>)"
    by (simp add: pipeline_view_def)
  show ?thesis
    using eq assms(1,2) run_view[OF v, of cfg acts]
    by (simp add: run_keeps_running run_keeps_worker)
qed

text \<open>
  The scenario of the specification: the write of a batch of three fails, the next batch
  of three is written.
\<close>

lemmas eval_defs = start_def init_service_def logger_def log_metric_def queue_put_def queue_full_def
        default_settings_def iteration_def loop_body_def time_trigger_def receive_def
        wait_for_get_def interval_elapsed_def tick_def flush_batch_eq pending_def Let_def

theorem failed_flush_is_dropped_witness:
  "running three_failing \<and> worker_live three_failing
   \<and> sink_faults three_failing (length (attempts three_failing))
   \<and> flush_batch three_failing [1, 2, 3]
       = (Inr (), three_failing\<lparr>attempts := [[1, 2, 3]], log := [Flush_failed SinkError]\<rparr>)
   \<and> worker_live (run batches_of_three three_failing three_then_three)
   \<and> attempts (run batches_of_three three_failing three_then_three) = [[1, 2, 3], [4, 5, 6]]
   \<and> llm_metrics (run batches_of_three three_failing three_then_three) = [4, 5, 6]
   \<and> log (run batches_of_three three_failing three_then_three) = [Flush_failed SinkError, Flushed 3]"
proof -
  have r: "running three_failing" and w: "worker_live three_failing"
    and f: "sink_faults three_failing (length (attempts three_failing))"
    by (simp_all add: three_failing_def worker_live_def)
  have b: "[1, 2, 3 :: nat] \<noteq> []" by simp
  note th = failed_flush_is_dropped[OF r w b f, of batches_of_three three_then_three]
  have fl: "flush_batch three_failing [1, 2, 3]
       = (Inr (), three_failing\<lparr>attempts := [[1, 2, 3]], log := [Flush_failed SinkError]\<rparr>)"
    using th[THEN conjunct1] by (simp add: three_failing_def)
  have ev: "attempts (run batches_of_three three_failing three_then_three) = [[1, 2, 3], [4, 5, 6]]
   \<and> llm_metrics (run batches_of_three three_failing three_then_three) = [4, 5, 6]
   \<and> log (run batches_of_three three_failing three_then_three) = [Flush_failed SinkError, Flushed 3]"
    by (simp add: three_failing_def batches_of_three_def three_then_three_def eval_defs)
  show ?thesis
    using r w f fl th[THEN conjunct2, THEN conjunct2, THEN conjunct1] ev by blast
qed


section \<open>The rate limiter under concurrent calls\<close>

text \<open>
  A request that is scheduled four times in a row, alone, is a call of
  \<open>check_rate_limit\<close>.
\<close>

lemma alone:
  "interleave (minute_key u e now) (hour_key u e now)
      (py_or lm (RATE_LIMIT_PER_MINUTE cfg)) (py_or lh (RATE_LIMIT_PER_HOUR cfg))
      [0, 0, 0, 0] ([Start], svc)
   = (case check_rate_limit cfg svc u e lm lh now of
        (Inr d, s) \<Rightarrow> ([Decided d], s)
      | (Inl ex, s) \<Rightarrow> ([Start], s))"
proof (cases svc)
  case None
  then show ?thesis by (simp add: rl_step_def check_rate_limit_def)
next
  case (Some r)
  let ?mk = "minute_key u e now" and ?hk = "hour_key u e now"
  obtain c s1 where g1: "get_counter (Some r) ?mk = (Inr c, s1)"
    using get_counter_returns by blast
  obtain h s2 where g2: "get_counter s1 ?hk = (Inr h, s2)"
    using get_counter_returns by blast
  obtain v s3 where i1: "increment_counter s2 ?mk (Some 60) = (Inr v, s3)"
    using increment_counter_returns by blast
  obtain w s4 where i2: "increment_counter s3 ?hk (Some 3600) = (Inr w, s4)"
    using increment_counter_returns by blast
  show ?thesis using Some g1 g2 i1 i2
    by (simp add: rl_step_def check_rate_limit_Some check_rate_limit_body_def)
qed

text \<open>
  Claim C8, as stated: check and increment are one atomic operation, so the requests
  admitted in a window never exceed the ceiling. With the ceiling 1 per minute and two
  requests of the same subject, let each do its two reads before either does its
  increments: both are admitted.
\<close>

theorem interleaved_calls_exceed_ceiling:
  "py_or (Some 1) (RATE_LIMIT_PER_MINUTE default_settings) = 1
   \<and> map task_admitted (fst (interleave (minute_key ''alice'' ''/chat'' noon) (hour_key ''alice'' ''/chat'' noon)
      (py_or (Some 1) (RATE_LIMIT_PER_MINUTE default_settings))
      (py_or None (RATE_LIMIT_PER_HOUR default_settings))
      [0, 0, 1, 1, 0, 0, 1, 1] ([Start, Start], Some fresh_store))) = [True, True]"
  by (simp add: rl_step_def get_counter_def increment_counter_def redis_get_def redis_incr_def
      redis_expire_def issue_def fresh_store_def default_settings_def minute_key_def hour_key_def)

text \<open>
  Whatever the hour counter holds, a call on an available store admits only below the
  minute ceiling and then adds one to the minute counter; a rejected call leaves it.
\<close>

lemma get_counter_any:
  "no_faults r \<Longrightarrow> \<exists>h. get_counter (Some r) key = (Inr h, Some (issue r))"
  by (cases "db r key")
    (auto simp: get_counter_def redis_get_def no_faults_def split: sum.splits)

lemma increment_counter_any:
  "no_faults r \<Longrightarrow>
   \<exists>w r'. increment_counter (Some r) key ttl = (Inr w, Some r') \<and> no_faults r'
         \<and> (\<forall>k. k \<noteq> key \<longrightarrow> db r' k = db r k)"
  by (cases "db r key"; cases ttl)
    (auto simp: increment_counter_def redis_incr_def redis_expire_def no_faults_def issue_def
      split: redis_value.splits)

lemma call_counts:
  assumes "no_faults r" and "counter_at r mk c" and "mk \<noteq> hk"
  shows "\<exists>d r'. check_rate_limit_body (Some r) mk hk lpm lph = (Inr d, Some r') \<and> no_faults r'
           \<and> (if fst d then c < lpm \<and> counter_at r' mk (c + 1) else counter_at r' mk c)"
proof -
  have g1: "get_counter (Some r) mk = (Inr c, Some (issue r))"
    using assms by (simp add: get_counter_read)
  have nf1: "no_faults (issue r)" using assms(1) by simp
  obtain h where g2: "get_counter (Some (issue r)) hk = (Inr h, Some (issue (issue r)))"
    using get_counter_any[OF nf1] by blast
  let ?r2 = "issue (issue r)"
  have nf2: "no_faults ?r2" and c2: "counter_at ?r2 mk c" using assms by simp_all
  from increment_counter_write[OF nf2 c2, of 60] obtain r3 where
    i1: "increment_counter (Some ?r2) mk (Some 60) = (Inr (c + 1), Some r3)"
    and nf3: "no_faults r3" and c3: "counter_at r3 mk (c + 1)" by auto
  obtain w r4 where i2: "increment_counter (Some r3) hk (Some 3600) = (Inr w, Some r4)"
    and nf4: "no_faults r4" and fr4: "\<forall>k. k \<noteq> hk \<longrightarrow> db r4 k = db r3 k"
    using increment_counter_any[OF nf3] by blast
  have c4: "counter_at r4 mk (c + 1)" using c3 fr4 assms(3) by (simp add: counter_at_def)
  show ?thesis
    using g1 g2 i1 i2 nf2 c2 nf4 c4
    by (auto simp: check_rate_limit_body_def)
qed

lemma sequential_calls_fst:
  "check_rate_limit cfg svc u e lm lh t = (res, svc') \<Longrightarrow>
   fst (sequential_calls cfg svc u e lm lh (t # ts)) = res # fst (sequential_calls cfg svc' u e lm lh ts)"
  by (simp split: prod.splits)

lemma admitted_bound:
  assumes "\<forall>t\<in>set ts. same_minute t t0"
    and "N = py_or lm (RATE_LIMIT_PER_MINUTE cfg)"
    and "no_faults r" and "counter_at r (minute_key u e t0) c"
  shows "int (length (filter admitted (fst (sequential_calls cfg (Some r) u e lm lh ts))))
           \<le> max 0 (N - c)"
  using assms
proof (induction ts arbitrary: r c)
  case Nil
  then show ?case by simp
next
  case (Cons t ts)
  let ?mk = "minute_key u e t0" and ?hk = "hour_key u e t0"
  have keys: "minute_key u e t = ?mk" "hour_key u e t = ?hk"
    using Cons.prems(1) same_minute_keys[of t t0 u e] by simp_all
  have rest: "\<forall>t\<in>set ts. same_minute t t0" using Cons.prems(1) by simp
  from call_counts[OF Cons.prems(3) Cons.prems(4) keys_differ[of u e t0 t0],
      where lpm = N and lph = "py_or lh (RATE_LIMIT_PER_HOUR cfg)"]
  obtain d r' where
    b: "check_rate_limit_body (Some r) ?mk ?hk N (py_or lh (RATE_LIMIT_PER_HOUR cfg)) = (Inr d, Some r')"
    and nf: "no_faults r'"
    and cnt: "if fst d then c < N \<and> counter_at r' ?mk (c + 1) else counter_at r' ?mk c"
    by blast
  have call: "check_rate_limit cfg (Some r) u e lm lh t = (Inr d, Some r')"
    using b keys Cons.prems(2) by (simp add: check_rate_limit_Some)
  show ?case
  proof (cases "fst d")
    case True
    then have lt: "c < N" and c': "counter_at r' ?mk (c + 1)" using cnt by simp_all
    from Cons.IH[OF rest Cons.prems(2) nf c']
    have "int (length (filter admitted (fst (sequential_calls cfg (Some r') u e lm lh ts))))
            \<le> max 0 (N - (c + 1))" .
    then show ?thesis using True lt by (simp add: sequential_calls_fst[OF call] del: sequential_calls.simps)
  next
    case False
    then have c': "counter_at r' ?mk c" using cnt by simp
    from Cons.IH[OF rest Cons.prems(2) nf c']
    have "int (length (filter admitted (fst (sequential_calls cfg (Some r') u e lm lh ts))))
            \<le> max 0 (N - c)" .
    then show ?thesis using False by (simp add: sequential_calls_fst[OF call] del: sequential_calls.simps)
  qed
qed

text \<open>
  The same for the hour counter, whatever the minute counter holds: a call admits only
  below the hour ceiling and then adds one to the hour counter.
\<close>

lemma same_hour_key: "same_hour t t0 \<Longrightarrow> hour_key u e t = hour_key u e t0"
  by (simp add: same_hour_def hour_key_def strftime_YmdH_def strftime_Ymd_def)

lemma call_counts_hour:
  assumes "no_faults r" and "counter_at r hk h" and "mk \<noteq> hk"
  shows "\<exists>d r'. check_rate_limit_body (Some r) mk hk lpm lph = (Inr d, Some r') \<and> no_faults r'
           \<and> (if fst d then h < lph \<and> counter_at r' hk (h + 1) else counter_at r' hk h)"
proof -
  obtain c where g1: "get_counter (Some r) mk = (Inr c, Some (issue r))"
    using get_counter_any[OF assms(1)] by blast
  have nf1: "no_faults (issue r)" and h1: "counter_at (issue r) hk h" using assms by simp_all
  have g2: "get_counter (Some (issue r)) hk = (Inr h, Some (issue (issue r)))"
    using nf1 h1 by (simp add: get_counter_read)
  let ?r2 = "issue (issue r)"
  have nf2: "no_faults ?r2" and h2: "counter_at ?r2 hk h" using assms by simp_all
  obtain w r3 where i1: "increment_counter (Some ?r2) mk (Some 60) = (Inr w, Some r3)"
    and nf3: "no_faults r3" and fr3: "\<forall>k. k \<noteq> mk \<longrightarrow> db r3 k = db ?r2 k"
    using increment_counter_any[OF nf2] by blast
  have h3: "counter_at r3 hk h" using h2 fr3 assms(3) by (simp add: counter_at_def)
  from increment_counter_write[OF nf3 h3, of 3600] obtain r4 where
    i2: "increment_counter (Some r3) hk (Some 3600) = (Inr (h + 1), Some r4)"
    and nf4: "no_faults r4" and h4: "counter_at r4 hk (h + 1)" by auto
  show ?thesis
    using g1 g2 i1 i2 nf2 h2 nf4 h4
    by (auto simp: check_rate_limit_body_def)
qed

lemma admitted_bound_hour:
  assumes "\<forall>t\<in>set ts. same_hour t t0"
    and "H = py_or lh (RATE_LIMIT_PER_HOUR cfg)"
    and "no_faults r" and "counter_at r (hour_key u e t0) h"
  shows "int (length (filter admitted (fst (sequential_calls cfg (Some r) u e lm lh ts))))
           \<le> max 0 (H - h)"
  using assms
proof (induction ts arbitrary: r h)
  case Nil
  then show ?case by simp
next
  case (Cons t ts)
  let ?mk = "minute_key u e t" and ?hk = "hour_key u e t0"
  have key: "hour_key u e t = ?hk"
    using Cons.prems(1) same_hour_key[of t t0 u e] by simp
  have rest: "\<forall>t\<in>set ts. same_hour t t0" using Cons.prems(1) by simp
  from call_counts_hour[OF Cons.prems(3) Cons.prems(4) keys_differ[of u e t t0],
      where lpm = "py_or lm (RATE_LIMIT_PER_MINUTE cfg)" and lph = H]
  obtain d r' where
    b: "check_rate_limit_body (Some r) ?mk ?hk (py_or lm (RATE_LIMIT_PER_MINUTE cfg)) H = (Inr d, Some r')"
    and nf: "no_faults r'"
    and cnt: "if fst d then h < H \<and> counter_at r' ?hk (h + 1) else counter_at r' ?hk h"
    by blast
  have call: "check_rate_limit cfg (Some r) u e lm lh t = (Inr d, Some r')"
    using b key Cons.prems(2) by (simp add: check_rate_limit_Some)
  show ?case
  proof (cases "fst d")
    case True
    then have lt: "h < H" and h': "counter_at r' ?hk (h + 1)" using cnt by simp_all
    from Cons.IH[OF rest Cons.prems(2) nf h']
    have "int (length (filter admitted (fst (sequential_calls cfg (Some r') u e lm lh ts))))
            \<le> max 0 (H - (h + 1))" .
    then show ?thesis using True lt by (simp add: sequential_calls_fst[OF call] del: sequential_calls.simps)
  next
    case False
    then have h': "counter_at r' ?hk h" using cnt by simp
    from Cons.IH[OF rest Cons.prems(2) nf h']
    have "int (length (filter admitted (fst (sequential_calls cfg (Some r') u e lm lh ts))))
            \<le> max 0 (H - h)" .
    then show ?thesis using False by (simp add: sequential_calls_fst[OF call] del: sequential_calls.simps)
  qed
qed

text \<open>
  Claim C8, amended. The reads and the increments are separate operations on the
  store. When the requests of one subject are served one after the other on an
  available store, the number admitted does not exceed the configured ceiling of the
  window they arrive in: the minute ceiling for requests inside one minute window, with
  the minute counter at some \<open>c \<ge> 0\<close> before them, and the hour ceiling for requests inside
  one hour window, with the hour counter at some \<open>h \<ge> 0\<close> before them.
\<close>

theorem sequential_admissions_bounded:
  assumes "no_faults r"
  shows "((\<forall>t\<in>set ts. same_minute t t0)
            \<and> counter_at r (minute_key user_id endpoint t0) c \<and> 0 \<le> c
            \<and> 0 \<le> py_or lm (RATE_LIMIT_PER_MINUTE cfg)
          \<longrightarrow> int (length (filter admitted
                     (fst (sequential_calls cfg (Some r) user_id endpoint lm lh ts))))
                \<le> py_or lm (RATE_LIMIT_PER_MINUTE cfg))
       \<and> ((\<forall>t\<in>set ts. same_hour t t0)
            \<and> counter_at r (hour_key user_id endpoint t0) h \<and> 0 \<le> h
            \<and> 0 \<le> py_or lh (RATE_LIMIT_PER_HOUR cfg)
          \<longrightarrow> int (length (filter admitted
                     (fst (sequential_calls cfg (Some r) user_id endpoint lm lh ts))))
                \<le> py_or lh (RATE_LIMIT_PER_HOUR cfg))"
proof (intro conjI impI)
  assume a: "(\<forall>t\<in>set ts. same_minute t t0)
            \<and> counter_at r (minute_key user_id endpoint t0) c \<and> 0 \<le> c
            \<and> 0 \<le> py_or lm (RATE_LIMIT_PER_MINUTE cfg)"
  then have w: "\<forall>t\<in>set ts. same_minute t t0"
    and k: "counter_at r (minute_key user_id endpoint t0) c"
    and z: "0 \<le> c" "0 \<le> py_or lm (RATE_LIMIT_PER_MINUTE cfg)" by simp_all
  from admitted_bound[OF w refl assms k, where cfg = cfg and lh = lh and lm = lm] z
  show "int (length (filter admitted
                     (fst (sequential_calls cfg (Some r) user_id endpoint lm lh ts))))
                \<le> py_or lm (RATE_LIMIT_PER_MINUTE cfg)"
    by linarith
next
  assume a: "(\<forall>t\<in>set ts. same_hour t t0)
            \<and> counter_at r (hour_key user_id endpoint t0) h \<and> 0 \<le> h
            \<and> 0 \<le> py_or lh (RATE_LIMIT_PER_HOUR cfg)"
  then have w: "\<forall>t\<in>set ts. same_hour t t0"
    and k: "counter_at r (hour_key user_id endpoint t0) h"
    and z: "0 \<le> h" "0 \<le> py_or lh (RATE_LIMIT_PER_HOUR cfg)" by simp_all
  from admitted_bound_hour[OF w refl assms k, where cfg = cfg and lh = lh and lm = lm] z
  show "int (length (filter admitted
                     (fst (sequential_calls cfg (Some r) user_id endpoint lm lh ts))))
                \<le> py_or lh (RATE_LIMIT_PER_HOUR cfg)"
    by linarith
qed

text \<open>
  Five calls inside one minute with the ceiling 3 per minute, and five calls spread over
  one hour with the ceiling 2 per hour, on an empty store.
\<close>

theorem sequential_admissions_bounded_witness:
  "no_faults fresh_store
   \<and> list_all (\<lambda>t. same_minute t noon)
        [at_second 1, at_second 7, at_second 20, at_second 41, at_second 59]
   \<and> counter_at fresh_store (minute_key ''alice'' ''/chat'' noon) 0
   \<and> py_or (Some 3) (RATE_LIMIT_PER_MINUTE default_settings) = 3
   \<and> int (length (filter admitted (fst (sequential_calls default_settings (Some fresh_store)
        ''alice'' ''/chat'' (Some 3) None
        [at_second 1, at_second 7, at_second 20, at_second 41, at_second 59])))) \<le> 3
   \<and> list_all (\<lambda>t. same_hour t noon)
        [at_minute 1, at_minute 7, at_minute 20, at_minute 41, at_minute 59]
   \<and> counter_at fresh_store (hour_key ''alice'' ''/chat'' noon) 0
   \<and> py_or (Some 2) (RATE_LIMIT_PER_HOUR default_settings) = 2
   \<and> int (length (filter admitted (fst (sequential_calls default_settings (Some fresh_store)
        ''alice'' ''/chat'' None (Some 2)
        [at_minute 1, at_minute 7, at_minute 20, at_minute 41, at_minute 59])))) \<le> 2"
proof -
  have a1: "no_faults fresh_store" by (simp add: no_faults_def fresh_store_def)
  have m1: "\<forall>t\<in>set [at_second 1, at_second 7, at_second 20, at_second 41, at_second 59].
              same_minute t noon"
    by (simp add: same_minute_def at_second_def)
  have m2: "counter_at fresh_store (minute_key ''alice'' ''/chat'' noon) 0"
    by (simp add: counter_at_def fresh_store_def)
  have m3: "py_or (Some 3) (RATE_LIMIT_PER_MINUTE default_settings) = 3" by simp
  have h1: "\<forall>t\<in>set [at_minute 1, at_minute 7, at_minute 20, at_minute 41, at_minute 59].
              same_hour t noon"
    by (simp add: same_hour_def at_minute_def)
  have h2: "counter_at fresh_store (hour_key ''alice'' ''/chat'' noon) 0"
    by (simp add: counter_at_def fresh_store_def)
  have h3: "py_or (Some 2) (RATE_LIMIT_PER_HOUR default_settings) = 2" by simp
  have lm: "list_all (\<lambda>t. same_minute t noon)
        [at_second 1, at_second 7, at_second 20, at_second 41, at_second 59]"
    by (simp add: same_minute_def at_second_def)
  have lh: "list_all (\<lambda>t. same_hour t noon)
        [at_minute 1, at_minute 7, at_minute 20, at_minute 41, at_minute 59]"
    by (simp add: same_hour_def at_minute_def)
  note th1 = sequential_admissions_bounded[OF a1,
      where ts = "[at_second 1, at_second 7, at_second 20, at_second 41, at_second 59]"
        and ?t0.0 = noon and user_id = "''alice''" and endpoint = "''/chat''" and c = 0
        and lm = "Some 3" and cfg = default_settings and lh = None,
      THEN conjunct1, rule_format]
  note th2 = sequential_admissions_bounded[OF a1,
      where ts = "[at_minute 1, at_minute 7, at_minute 20, at_minute 41, at_minute 59]"
        and ?t0.0 = noon and user_id = "''alice''" and endpoint = "''/chat''" and h = 0
        and lm = None and cfg = default_settings and lh = "Some 2",
      THEN conjunct2, rule_format]
  have b1: "int (length (filter admitted (fst (sequential_calls default_settings (Some fresh_store)
        ''alice'' ''/chat'' (Some 3) None
        [at_second 1, at_second 7, at_second 20, at_second 41, at_second 59])))) \<le> 3"
    using th1 m1 m2 by (simp only: m3) simp
  have b2: "int (length (filter admitted (fst (sequential_calls default_settings (Some fresh_store)
        ''alice'' ''/chat'' None (Some 2)
        [at_minute 1, at_minute 7, at_minute 20, at_minute 41, at_minute 59])))) \<le> 2"
    using th2 h1 h2 by (simp only: h3) simp
  show ?thesis using a1 lm m2 m3 b1 lh h2 h3 b2 by blast
qed


section \<open>The flush interval\<close>

text \<open>
  \<open>_flush_batch\<close> catches what the write raises and the timeout of the wait is caught
  in the body, so the body of the loop always returns normally.
\<close>

lemma loop_body_returns: "\<exists>fr'. loop_body cfg clk fr = (Inr (), fr')"
  by (cases fr)
    (auto simp: loop_body_def time_trigger_def receive_def wait_for_get_def flush_batch_eq Let_def
      split: list.splits)






















text \<open>
  The scenario of the specification, with writes that take no time: batch size 2,
  interval 5 s, the batch \<open>[1, 2]\<close> flushed at 0, the metric 3 put at 1 s and nothing else.
  The metric is flushed by the pass that begins at 5 s, and \<open>last_flush\<close> is reset to 5 s.
\<close>

lemma spec_scenario:
  "flush_log (timed_run batches_of_two instant_write 7 after_fast_write) = [(By_time, 5000000, [3])]"
  "last_flush_of (service (timed_run batches_of_two instant_write 7 after_fast_write)) = Some 5000000"
  by code_simp+




section \<open>Costs\<close>

text \<open>
  The rounding of the model is the rounding of binary64: the result of \<open>float64\<close> on a
  number other than zero has a significand between \<open>2^52\<close> and \<open>2^53\<close> at the exponent of
  the number, and is off by at most half a unit of the last of the 53 bits.
\<close>

lemma bitlen_rat_bounds:
  assumes "0 < (p::int)"
  shows "(2::rat) powi (bitlen p - 1) \<le> of_int p" and "of_int p < (2::rat) powi (bitlen p)"
proof -
  from bitlen_bounds[OF assms] have a: "2 ^ nat (bitlen p - 1) \<le> p" and b: "p < 2 ^ nat (bitlen p)"
    by simp_all
  have ge1: "1 \<le> bitlen p" using assms by (simp add: bitlen_alt_def)
  have "(of_int (2 ^ nat (bitlen p - 1)) :: rat) \<le> of_int p" using a by (simp only: of_int_le_iff)
  then show "(2::rat) powi (bitlen p - 1) \<le> of_int p"
    using ge1 by (simp add: power_int_def)
  have "(of_int p :: rat) < of_int (2 ^ nat (bitlen p))" using b by (simp only: of_int_less_iff)
  then show "of_int p < (2::rat) powi (bitlen p)"
    using ge1 by (simp add: power_int_def)
qed

lemma ilog2_bounds:
  assumes "0 < x"
  shows "2 powi (ilog2 x) \<le> x \<and> x < 2 powi (ilog2 x + 1)"
proof -
  obtain p q where pq: "quotient_of x = (p, q)" by (cases "quotient_of x")
  have q: "0 < q" using pq by (rule quotient_of_denom_pos)
  have x: "x = of_int p / of_int q" using pq by (rule quotient_of_div)
  have p: "0 < p" using assms q x by (simp add: zero_less_divide_iff)
  let ?k = "bitlen p - bitlen q"
  note bp = bitlen_rat_bounds[OF p] and bq = bitlen_rat_bounds[OF q]
  have qpos: "(0::rat) < of_int q" using q by simp
  have lo: "2 powi (?k - 1) \<le> x"
  proof -
    have "(2::rat) powi (?k - 1) * of_int q \<le> 2 powi (?k - 1) * 2 powi (bitlen q)"
      using bq(2) by (intro mult_left_mono) simp_all
    also have "\<dots> = 2 powi (bitlen p - 1)"
      by (simp add: power_int_add[symmetric])
    also have "\<dots> \<le> of_int p" by (rule bp(1))
    finally show ?thesis using qpos by (simp add: x pos_le_divide_eq)
  qed
  have hi: "x < 2 powi (?k + 1)"
  proof -
    have "(of_int p :: rat) < 2 powi (bitlen p)" by (rule bp(2))
    also have "\<dots> = 2 powi (?k + 1) * 2 powi (bitlen q - 1)"
      by (simp add: power_int_add[symmetric])
    also have "\<dots> \<le> 2 powi (?k + 1) * of_int q"
      using bq(1) by (intro mult_left_mono) simp_all
    finally show ?thesis using qpos by (simp add: x pos_divide_less_eq)
  qed
  show ?thesis
  proof (cases "2 powi ?k \<le> x")
    case True
    then show ?thesis using hi pq by (simp add: ilog2_def)
  next
    case False
    then have "ilog2 x = ?k - 1" using pq by (simp add: ilog2_def)
    then show ?thesis using lo False by simp
  qed
qed

lemma round_half_even_near: "\<bar>of_int (round_half_even y) - y\<bar> \<le> 1 / 2"
proof -
  have "of_int \<lfloor>y\<rfloor> \<le> y" "y < of_int \<lfloor>y\<rfloor> + 1" by linarith+
  then show ?thesis
    by (auto simp: round_half_even_def Let_def abs_le_iff)
qed

lemma round_half_even_above: "of_int n \<le> y \<Longrightarrow> n \<le> round_half_even y"
proof -
  assume "of_int n \<le> y"
  then have "n \<le> \<lfloor>y\<rfloor>" by (simp add: le_floor_iff)
  then show "n \<le> round_half_even y" by (auto simp: round_half_even_def Let_def)
qed

lemma round_half_even_below: "y \<le> of_int n \<Longrightarrow> round_half_even y \<le> n"
proof (cases "y = of_int n")
  case True
  then show ?thesis by (simp add: round_half_even_def)
next
  case False
  assume "y \<le> of_int n"
  then have "y < of_int n" using False by simp
  then have "\<lfloor>y\<rfloor> < n" by (simp add: floor_less_iff)
  then show ?thesis by (auto simp: round_half_even_def Let_def)
qed

lemma float64_shape:
  assumes "x \<noteq> 0"
  shows "\<exists>m. float64 x = sgn x * of_int m * 2 powi (ilog2 \<bar>x\<bar> - 52)
             \<and> 2 ^ 52 \<le> m \<and> m \<le> 2 ^ 53
             \<and> \<bar>float64 x - x\<bar> \<le> 2 powi (ilog2 \<bar>x\<bar> - 53)"
proof -
  let ?a = "\<bar>x\<bar>" and ?e = "ilog2 \<bar>x\<bar> - 52"
  let ?y = "\<bar>x\<bar> / 2 powi ?e"
  let ?m = "round_half_even ?y"
  have a: "0 < ?a" using assms by simp
  note b = ilog2_bounds[OF a]
  have pe: "(0::rat) < 2 powi ?e" by simp
  have eq: "float64 x = sgn x * of_int ?m * 2 powi ?e"
    using assms by (simp add: float64_def Let_def)
  have s52: "(2::rat) powi (52 + ?e) = 2 powi 52 * 2 powi ?e" by (rule power_int_add) simp
  have s53: "(2::rat) powi (53 + ?e) = 2 powi 53 * 2 powi ?e" by (rule power_int_add) simp
  have i52: "52 + ?e = ilog2 ?a" and i53: "53 + ?e = ilog2 ?a + 1" by simp_all
  have "(2::rat) powi 52 * 2 powi ?e \<le> ?a"
    using b unfolding s52[symmetric] i52 by simp
  then have "(2::rat) powi 52 \<le> ?y" using pe by (simp only: pos_le_divide_eq)
  then have y1: "of_int (2 ^ 52) \<le> ?y" by simp
  have "?a < (2::rat) powi 53 * 2 powi ?e"
    using b unfolding s53[symmetric] i53 by simp
  then have "?y < (2::rat) powi 53" using pe by (simp only: pos_divide_less_eq)
  then have y2: "?y \<le> of_int (2 ^ 53)" by simp
  have m1: "2 ^ 52 \<le> ?m" using round_half_even_above[OF y1] .
  have m2: "?m \<le> 2 ^ 53" using round_half_even_below[OF y2] .
  have "\<bar>float64 x - x\<bar> = \<bar>sgn x * (of_int ?m * 2 powi ?e - ?a)\<bar>"
    by (simp add: eq algebra_simps flip: abs_sgn mult.assoc) (metis mult.commute mult_sgn_abs)
  also have "\<dots> = \<bar>of_int ?m * 2 powi ?e - ?a\<bar>"
    using assms by (simp add: abs_mult abs_sgn_eq)
  also have "\<dots> = \<bar>of_int ?m - ?y\<bar> * 2 powi ?e"
  proof -
    have "of_int ?m * 2 powi ?e - ?a = (of_int ?m - ?y) * 2 powi ?e"
      using pe by (simp add: algebra_simps)
    then show ?thesis by (simp add: abs_mult)
  qed
  also have "\<dots> \<le> (1 / 2) * 2 powi ?e"
    using round_half_even_near[of ?y] pe by (intro mult_right_mono) simp_all
  also have "\<dots> = 2 powi (ilog2 ?a - 53)"
  proof -
    have "(2::rat) powi ((ilog2 ?a - 53) + 1) = 2 powi (ilog2 ?a - 53) * 2 powi 1"
      by (rule power_int_add) simp
    moreover have "(ilog2 ?a - 53) + 1 = ?e" by simp
    ultimately have "(2::rat) powi ?e = 2 powi (ilog2 ?a - 53) * 2" by simp
    then show ?thesis by simp
  qed
  finally show ?thesis using eq m1 m2 by blast
qed

lemma float64_significand:
  "float64 x = 0 \<or> (\<exists>m e. \<bar>float64 x\<bar> = of_int m * 2 powi e \<and> 2 ^ 52 \<le> m \<and> m \<le> 2 ^ 53)"
proof (cases "x = 0")
  case True
  then show ?thesis by (simp add: float64_def)
next
  case False
  from float64_shape[OF False] obtain m where
    eq: "float64 x = sgn x * of_int m * 2 powi (ilog2 \<bar>x\<bar> - 52)"
    and m: "2 ^ 52 \<le> m" "m \<le> 2 ^ 53" by blast
  have "0 \<le> m" using m(1) by (rule order_trans[rotated]) simp
  then have "\<bar>float64 x\<bar> = of_int m * 2 powi (ilog2 \<bar>x\<bar> - 52)"
    using False by (simp add: eq abs_mult abs_sgn_eq)
  then show ?thesis using m by blast
qed

text \<open>
  The model with no pricing of its own costs 0.10 per million tokens. One million input
  tokens cost the float nearest to 0.1, two million the float nearest to 0.2.
\<close>

lemma tenth: "float64 (10 / 100) = 3602879701896397 / 36028797018963968"
  by code_simp

lemma fallback_costs:
  "get_model_costs default_settings ''custom-model''
     = (3602879701896397 / 36028797018963968, 3602879701896397 / 36028797018963968)"
  by code_simp

lemma div_steps:
  "int_truediv 1000000 1000000 = 1" "int_truediv 2000000 1000000 = 2" "int_truediv 0 1000000 = 0"
  by code_simp+

lemma mul_steps:
  "fmul 1 (3602879701896397 / 36028797018963968) = 3602879701896397 / 36028797018963968"
  "fmul 2 (3602879701896397 / 36028797018963968) = 3602879701896397 / 18014398509481984"
  "fmul 0 (3602879701896397 / 36028797018963968) = 0"
  by code_simp+

lemma add_steps:
  "fadd (3602879701896397 / 36028797018963968) 0 = 3602879701896397 / 36028797018963968"
  "fadd (3602879701896397 / 18014398509481984) 0 = 3602879701896397 / 18014398509481984"
  "fadd (3602879701896397 / 36028797018963968) (3602879701896397 / 18014398509481984)
     = 5404319552844596 / 18014398509481984"
  by code_simp+

lemma round_steps:
  "py_round (3602879701896397 / 36028797018963968) 8 = 3602879701896397 / 36028797018963968"
  "py_round (3602879701896397 / 18014398509481984) 8 = 3602879701896397 / 18014398509481984"
  by code_simp+

lemma three_tenths: "float64 (3 / 10) = 5404319552844595 / 18014398509481984"
  by code_simp

lemma cost_of_one_million:
  "calculate_cost default_settings ''custom-model'' 1000000 0 = 3602879701896397 / 36028797018963968"
  by (simp only: calculate_cost_def fallback_costs prod.case Let_def div_steps mul_steps add_steps
      round_steps)

lemma cost_of_two_million:
  "calculate_cost default_settings ''custom-model'' 2000000 0 = 3602879701896397 / 18014398509481984"
  by (simp only: calculate_cost_def fallback_costs prod.case Let_def div_steps mul_steps add_steps
      round_steps)

text \<open>
  Claim C9, as stated: the cost is a fixed-point decimal, so that sums of costs do not
  drift. The cost of one million tokens at 0.10 per million is not the decimal 0.1, and
  the sum of that cost and the cost of two million tokens is neither the decimal 0.3
  nor the float nearest to it.
\<close>

theorem cost_is_not_a_decimal:
  "calculate_cost default_settings ''custom-model'' 1000000 0 \<noteq> 1 / 10
   \<and> fadd (calculate_cost default_settings ''custom-model'' 1000000 0)
          (calculate_cost default_settings ''custom-model'' 2000000 0) \<noteq> 3 / 10
   \<and> fadd (calculate_cost default_settings ''custom-model'' 1000000 0)
          (calculate_cost default_settings ''custom-model'' 2000000 0) \<noteq> float64 (3 / 10)"
  by (simp only: cost_of_one_million cost_of_two_million add_steps three_tenths) simp

text \<open>
  Claim C9, amended. The cost is a binary float: \<open>calculate_cost\<close> returns the float
  nearest to a decimal of eight places, that is zero or a significand of 53 bits times a
  power of two.
\<close>

theorem cost_is_a_binary_float:
  "(\<exists>k. calculate_cost cfg model input_tokens output_tokens = float64 (of_int k / 10 ^ 8))
   \<and> (calculate_cost cfg model input_tokens output_tokens = 0
      \<or> (\<exists>m e. \<bar>calculate_cost cfg model input_tokens output_tokens\<bar> = of_int m * 2 powi e
             \<and> 2 ^ 52 \<le> m \<and> m \<le> 2 ^ 53))"
proof -
  obtain a b where g: "get_model_costs cfg model = (a, b)" by (cases "get_model_costs cfg model")
  let ?s = "fadd (fmul (int_truediv input_tokens 1000000) a) (fmul (int_truediv output_tokens 1000000) b)"
  let ?k = "round_half_even (?s * 10 ^ 8)"
  have eq: "calculate_cost cfg model input_tokens output_tokens = float64 (of_int ?k / 10 ^ 8)"
    by (simp add: calculate_cost_def g py_round_def Let_def)
  show ?thesis
    unfolding eq using float64_significand[of "of_int ?k / 10 ^ 8"] by blast
qed

end
